theory Spec2Isabelle
  imports Main "HOL-Library.Word"
begin

unbundle bit_operations_syntax

section \<open>Array buffers, views and the binary cursor stream\<close>

text \<open>
  An ArrayBuffer is a fixed-length block of bytes that lives on a heap and is referred to
  by its address, so that two streams over one buffer share its bytes. A Uint8Array is a
  window (offset, length) on such a buffer.
\<close>

type_synonym byte = "8 word"
type_synonym heap = "byte list list"

datatype error = TypeError string | RangeError string | Error string

record Uint8Array =
  view_buffer :: nat
  view_byteOffset :: nat
  view_length :: nat

text \<open>\<open>uint8array[i]\<close>: \<open>None\<close> is JavaScript's \<open>undefined\<close>, the value of a read outside the view.\<close>

definition u8_get :: "heap \<Rightarrow> Uint8Array \<Rightarrow> int \<Rightarrow> byte option" where
  "u8_get h v i =
     (if 0 \<le> i \<and> i < int (view_length v) \<and> view_buffer v < length h
         \<and> view_byteOffset v + nat i < length (h ! view_buffer v)
      then Some (h ! view_buffer v ! (view_byteOffset v + nat i))
      else None)"

text \<open>\<open>uint8array[i] = b\<close>: a store outside the view is dropped silently.\<close>

definition u8_set :: "heap \<Rightarrow> Uint8Array \<Rightarrow> int \<Rightarrow> byte \<Rightarrow> heap" where
  "u8_set h v i b =
     (if 0 \<le> i \<and> i < int (view_length v) \<and> view_buffer v < length h
         \<and> view_byteOffset v + nat i < length (h ! view_buffer v)
      then h[view_buffer v := (h ! view_buffer v)[view_byteOffset v + nat i := b]]
      else h)"

text \<open>A byte handed to a typed-array slot: \<open>undefined\<close> is stored as 0.\<close>

definition to_uint8 :: "byte option \<Rightarrow> byte" where
  "to_uint8 b = (case b of None \<Rightarrow> 0 | Some x \<Rightarrow> x)"

text \<open>
  A JavaScript string is a sequence of 16-bit code units. \<open>String.fromCharCode(b)\<close> of an
  element of a Uint8Array is the code unit with that value, 0 to 255; \<open>undefined\<close> gives the
  code unit 0.
\<close>

type_synonym code_unit = "16 word"
type_synonym js_string = "code_unit list"

definition fromCharCode :: "byte option \<Rightarrow> code_unit" where
  "fromCharCode b = ucast (to_uint8 b)"

text \<open>\<open>value.charCodeAt(i)\<close> is the code unit as a number, 0 to 65535.\<close>

definition charCodeAt :: "code_unit \<Rightarrow> int" where
  "charCodeAt c = uint c"

text \<open>
  A number stored in a slot of a Uint8Array is taken modulo 256: of a code unit above 255
  only the low byte is kept.
\<close>

definition ToUint8 :: "int \<Rightarrow> byte" where
  "ToUint8 v = word_of_int v"

subsection \<open>The type casts\<close>

text \<open>
  Modelled from the spec: the module \<open>./typecast\<close> that the stream imports
  (uint8ToInt16, uint8ToInt32, uint8ToUint32, int32ToUint8, uint32ToUint8, float32ToUint8)
  is not among the sources. The spec calls the reads and writes that go through it
  ``little-endian fixed-width'': the first byte is the least significant one. A function
  of this module called with more arguments than it has parameters ignores the surplus,
  as every JavaScript function does. The numbers of the program are the whole numbers
  here (\<open>int\<close>): a cast to bytes keeps a number modulo \<open>2 ^ 32\<close>, as a store into a 32-bit
  typed array does, and a cast from bytes gives the unsigned (\<open>uint\<close>) or the signed
  (\<open>sint\<close>, two's complement) value of the bits.
\<close>

definition uint8ToInt16 :: "byte \<Rightarrow> byte \<Rightarrow> int" where
  "uint8ToInt16 a b = sint (ucast a OR push_bit 8 (ucast b) :: 16 word)"

text \<open>Four bytes as the 32 bits they hold, and back.\<close>

definition uint8_bits32 :: "byte \<Rightarrow> byte \<Rightarrow> byte \<Rightarrow> byte \<Rightarrow> 32 word" where
  "uint8_bits32 a b c d =
     ucast a OR push_bit 8 (ucast b) OR push_bit 16 (ucast c) OR push_bit 24 (ucast d)"

definition bits32_uint8 :: "32 word \<Rightarrow> byte list" where
  "bits32_uint8 v = [ucast v, ucast (drop_bit 8 v), ucast (drop_bit 16 v), ucast (drop_bit 24 v)]"

definition uint8ToUint32 :: "byte \<Rightarrow> byte \<Rightarrow> byte \<Rightarrow> byte \<Rightarrow> int" where
  "uint8ToUint32 a b c d = uint (uint8_bits32 a b c d)"

definition uint8ToInt32 :: "byte \<Rightarrow> byte \<Rightarrow> byte \<Rightarrow> byte \<Rightarrow> int" where
  "uint8ToInt32 a b c d = sint (uint8_bits32 a b c d)"

definition uint32ToUint8 :: "int \<Rightarrow> byte list" where
  "uint32ToUint8 v = bits32_uint8 (word_of_int v)"

definition int32ToUint8 :: "int \<Rightarrow> byte list" where
  "int32ToUint8 v = bits32_uint8 (word_of_int v)"

text \<open>A 32-bit float is carried as its IEEE bit pattern; only its four bytes matter here.\<close>

definition float32ToUint8 :: "32 word \<Rightarrow> byte list" where
  "float32ToUint8 v = bits32_uint8 v"

subsection \<open>BinaryStream\<close>

record BinaryStream =
  buffer :: nat
  uint8array :: Uint8Array
  index :: int
  byteLength :: nat

text \<open>What the constructor can be given: an ArrayBuffer, a view on one, or anything else.\<close>

datatype ctor_arg = ArrayBufferRef nat | ViewRef Uint8Array | NotABuffer

text \<open>
  \<open>new Uint8Array(buffer, byteOffset, length)\<close> for an ArrayBuffer at address \<open>a\<close>:
  an absent offset is 0, an absent length takes the rest of the buffer, and a window that
  does not fit raises a RangeError.
\<close>

definition new_Uint8Array :: "heap \<Rightarrow> nat \<Rightarrow> int option \<Rightarrow> int option \<Rightarrow> error + Uint8Array" where
  "new_Uint8Array h a byteOffset len =
     (let off = (case byteOffset of None \<Rightarrow> 0 | Some x \<Rightarrow> x);
          total = int (length (h ! a))
      in if off < 0 \<or> off > total then Inl (RangeError ''Start offset is outside the bounds of the buffer'')
         else (case len of
                 None \<Rightarrow> Inr \<lparr>view_buffer = a, view_byteOffset = nat off, view_length = nat (total - off)\<rparr>
               | Some l \<Rightarrow>
                   if l < 0 \<or> off + l > total then Inl (RangeError ''Invalid typed array length'')
                   else Inr \<lparr>view_buffer = a, view_byteOffset = nat off, view_length = nat l\<rparr>))"

definition BinaryStream_new :: "heap \<Rightarrow> ctor_arg \<Rightarrow> int option \<Rightarrow> int option \<Rightarrow> error + BinaryStream" where
  "BinaryStream_new h arg byteOffset0 byteLength0 =
     (let (buf, byteOffset, byteLength1) =
            (case arg of
               ViewRef v \<Rightarrow>
                 \<comment> \<open>\<open>buffer = buffer.buffer\<close> comes first, so the next two lines read the
                     ArrayBuffer: it has no \<open>byteOffset\<close>, and its \<open>byteLength\<close> is its own.\<close>
                 (ArrayBufferRef (view_buffer v), None,
                  (if view_buffer v < length h then Some (int (length (h ! view_buffer v))) else None))
             | _ \<Rightarrow> (arg, byteOffset0, byteLength0))
      in case buf of
           ArrayBufferRef a \<Rightarrow>
             if a < length h then
               (case new_Uint8Array h a byteOffset byteLength1 of
                  Inl e \<Rightarrow> Inl e
                | Inr u \<Rightarrow> Inr \<lparr>buffer = a, uint8array = u, index = 0, byteLength = length (h ! a)\<rparr>)
             else Inl (TypeError ''BinaryStream: expected ArrayBuffer or ArrayBuffer'')
         | _ \<Rightarrow> Inl (TypeError ''BinaryStream: expected ArrayBuffer or ArrayBuffer''))"

definition substream :: "heap \<Rightarrow> BinaryStream \<Rightarrow> int \<Rightarrow> error + BinaryStream" where
  "substream h s n = BinaryStream_new h (ArrayBufferRef (buffer s)) (Some (index s)) (Some n)"

definition remaining :: "BinaryStream \<Rightarrow> int" where
  "remaining s = int (byteLength s) - index s"

definition skip :: "int \<Rightarrow> BinaryStream \<Rightarrow> BinaryStream" where
  "skip bytes s = s\<lparr>index := index s + bytes\<rparr>"

definition seek :: "int \<Rightarrow> BinaryStream \<Rightarrow> BinaryStream" where
  "seek i s = s\<lparr>index := i\<rparr>"

definition tell :: "BinaryStream \<Rightarrow> int" where
  "tell s = index s"

text \<open>The loop of \<open>peek\<close>: \<open>i\<close> runs from its start value up to \<open>size\<close>, \<open>data\<close> collects the characters.\<close>

function peek_loop :: "heap \<Rightarrow> BinaryStream \<Rightarrow> int \<Rightarrow> bool \<Rightarrow> int \<Rightarrow> js_string \<Rightarrow> js_string" where
  "peek_loop h s size0 allowNulls i data =
     (if i < size0 then
        (let b = u8_get h (uint8array s) (index s + i)
         in peek_loop h s size0 allowNulls (i + 1)
              (if allowNulls \<or> (case b of None \<Rightarrow> False | Some x \<Rightarrow> x > 0)
               then data @ [fromCharCode b] else data))
      else data)"
  by pat_completeness auto
termination
  by (relation "measure (\<lambda>(h, s, size0, allowNulls, i, data). nat (size0 - i))") auto

declare peek_loop.simps [simp del]

definition peek :: "heap \<Rightarrow> BinaryStream \<Rightarrow> int \<Rightarrow> bool \<Rightarrow> js_string" where
  "peek h s size0 allowNulls = peek_loop h s size0 allowNulls 0 []"

text \<open>\<open>read(size, allowNulls)\<close>: a size that is falsy (0, or absent) is replaced by \<open>remaining()\<close>.\<close>

definition read :: "heap \<Rightarrow> BinaryStream \<Rightarrow> int \<Rightarrow> bool \<Rightarrow> js_string \<times> BinaryStream" where
  "read h s size0 allowNulls =
     (let size1 = (if size0 = 0 then remaining s else size0);
          data = peek h s size1 allowNulls
      in (data, s\<lparr>index := index s + size1\<rparr>))"

definition readInt32 :: "heap \<Rightarrow> BinaryStream \<Rightarrow> int \<times> BinaryStream" where
  "readInt32 h s =
     (let i = index s; u = uint8array s;
          data = uint8ToInt32 (to_uint8 (u8_get h u i)) (to_uint8 (u8_get h u (i + 1)))
                              (to_uint8 (u8_get h u (i + 2))) (to_uint8 (u8_get h u (i + 3)))
      in (data, s\<lparr>index := index s + 4\<rparr>))"

definition readUint32 :: "heap \<Rightarrow> BinaryStream \<Rightarrow> int \<times> BinaryStream" where
  "readUint32 h s =
     (let i = index s; u = uint8array s;
          data = uint8ToUint32 (to_uint8 (u8_get h u i)) (to_uint8 (u8_get h u (i + 1)))
                               (to_uint8 (u8_get h u (i + 2))) (to_uint8 (u8_get h u (i + 3)))
      in (data, s\<lparr>index := index s + 4\<rparr>))"

text \<open>
  The argument of a bulk read is either a typed array to fill or a number, for which a
  fresh array of that many zeros is made.
\<close>

datatype 'a view_arg = Length nat | View "'a list"

definition to_view :: "'a::zero view_arg \<Rightarrow> 'a list" where
  "to_view v = (case v of Length n \<Rightarrow> replicate n 0 | View xs \<Rightarrow> xs)"

text \<open>
  \<open>readInt32Array(view)\<close>: the array is filled slot by slot. An Int32Array is the list of
  its 32-bit elements. The source calls \<open>uint8ToInt16\<close> on the four bytes of a slot; the
  cast takes the first two, and the number it gives is stored in the 32-bit slot.
\<close>

function readInt32Array_loop :: "heap \<Rightarrow> BinaryStream \<Rightarrow> nat \<Rightarrow> nat \<Rightarrow> 32 word list \<Rightarrow> 32 word list" where
  "readInt32Array_loop h s i l view =
     (if i < l then
        (let offset = index s + int i * 4; u = uint8array s
         in readInt32Array_loop h s (i + 1) l
              (view[i := word_of_int (uint8ToInt16 (to_uint8 (u8_get h u offset))
                                                   (to_uint8 (u8_get h u (offset + 1))))]))
      else view)"
  by pat_completeness auto
termination
  by (relation "measure (\<lambda>(h, s, i, l, view). l - i)") auto

declare readInt32Array_loop.simps [simp del]

definition readInt32Array :: "heap \<Rightarrow> BinaryStream \<Rightarrow> 32 word view_arg \<Rightarrow> 32 word list \<times> BinaryStream" where
  "readInt32Array h s arg =
     (let view = to_view arg;
          view' = readInt32Array_loop h s 0 (length view) view
      in (view', s\<lparr>index := index s + int (4 * length view)\<rparr>))"

section \<open>The text token stream\<close>

record TokenStream =
  buffer_ts :: string
  index_ts :: nat
  ident :: int

definition TokenStream_new :: "string option \<Rightarrow> TokenStream" where
  "TokenStream_new b = \<lparr>buffer_ts = (case b of None \<Rightarrow> [] | Some x \<Rightarrow> x), index_ts = 0, ident = 0\<rparr>"

text \<open>The characters that end a pending token and are dropped: space, comma, tab, newline, colon, carriage return.\<close>

definition is_separator :: "char \<Rightarrow> bool" where
  "is_separator c \<longleftrightarrow>
     c = CHR '' '' \<or> c = CHR '','' \<or> c = CHR 0x09 \<or> c = CHR 0x0A \<or> c = CHR '':'' \<or> c = CHR 0x0D"

text \<open>
  The loop of \<open>read()\<close>. The result is the returned token (\<open>None\<close> is \<open>undefined\<close>, the value
  of a call that falls out of the loop) and the index the call leaves behind.
  \<open>buffer[this.index]\<close> after the increment is the character that follows \<open>c\<close>, or
  \<open>undefined\<close> at the end of the buffer.
\<close>

function read_loop :: "string \<Rightarrow> nat \<Rightarrow> bool \<Rightarrow> bool \<Rightarrow> string \<Rightarrow> string option \<times> nat" where
  "read_loop buf i inComment inString token =
     (if i < length buf then
        (let c = buf ! i; i' = i + 1 in
         if inComment then
           (if c = CHR 0x0A then read_loop buf i' False inString token
            else read_loop buf i' inComment inString token)
         else if inString then
           (if c = CHR 0x22 then (Some token, i')
            else read_loop buf i' inComment inString (token @ [c]))
         else if is_separator c then
           (if token \<noteq> [] then (Some token, i')
            else read_loop buf i' inComment inString token)
         else if c = CHR ''{'' \<or> c = CHR ''}'' then
           (if token \<noteq> [] then (Some token, i' - 1)
            else (Some [c], i'))
         else if c = CHR ''/'' \<and> i' < length buf \<and> buf ! i' = CHR ''/'' then
           (if token \<noteq> [] then (Some token, i' - 1)
            else read_loop buf i' True inString token)
         else if c = CHR 0x22 then
           (if token \<noteq> [] then (Some token, i' - 1)
            else read_loop buf i' inComment True token)
         else read_loop buf i' inComment inString (token @ [c]))
      else (None, i))"
  by pat_completeness auto
termination
  by (relation "measure (\<lambda>(buf, i, inComment, inString, token). length buf - i)") auto

declare read_loop.simps [simp del]

definition read_ts :: "TokenStream \<Rightarrow> string option \<times> TokenStream" where
  "read_ts ts =
     (case read_loop (buffer_ts ts) (index_ts ts) False False [] of
        (token, i) \<Rightarrow> (token, ts\<lparr>index_ts := i\<rparr>))"

definition peek_ts :: "TokenStream \<Rightarrow> string option" where
  "peek_ts ts = fst (read_ts ts)"

text \<open>\<open>n\<close> calls of \<open>read()\<close> one after the other, and the values they return.\<close>

fun reads :: "nat \<Rightarrow> TokenStream \<Rightarrow> string option list" where
  "reads 0 ts = []"
| "reads (Suc n) ts = (case read_ts ts of (v, ts') \<Rightarrow> v # reads n ts')"

subsection \<open>Numbers in text, colours\<close>

text \<open>
  The text of a number (the template literal \<open>${view[i]}\<close>) and \<open>parseFloat\<close> belong to the
  language, not to this repository; the functions below take them as the parameters
  \<open>toStr\<close> and \<open>parseFloat\<close>, over any type \<open>'a\<close> of numbers. An element outside the array
  is \<open>undefined\<close> and prints as that word.
\<close>

definition template_elem :: "('a \<Rightarrow> string) \<Rightarrow> 'a list \<Rightarrow> nat \<Rightarrow> string" where
  "template_elem toStr view i = (if i < length view then toStr (view ! i) else ''undefined'')"

definition readFloat :: "(string option \<Rightarrow> 'a) \<Rightarrow> TokenStream \<Rightarrow> 'a \<times> TokenStream" where
  "readFloat parseFloat ts = (case read_ts ts of (token, ts') \<Rightarrow> (parseFloat token, ts'))"

text \<open>\<open>readColor(view)\<close>: the view is a typed array, so a store outside it is dropped.\<close>

definition readColor :: "(string option \<Rightarrow> 'a) \<Rightarrow> 'a list \<Rightarrow> TokenStream \<Rightarrow> 'a list \<times> TokenStream" where
  "readColor parseFloat view ts =
     (let (open_brace, ts1) = read_ts ts;
          (x2, ts2) = readFloat parseFloat ts1;
          view2 = view[2 := x2];
          (x1, ts3) = readFloat parseFloat ts2;
          view1 = view2[1 := x1];
          (x0, ts4) = readFloat parseFloat ts3;
          view0 = view1[0 := x0];
          (close_brace, ts5) = read_ts ts4
      in (view0, ts5))"

text \<open>\<open>writeLine(line)\<close>: \<open>'\t'.repeat(this.ident)\<close> raises a RangeError for a negative count.\<close>

definition writeLine :: "string \<Rightarrow> TokenStream \<Rightarrow> error + TokenStream" where
  "writeLine line ts =
     (if ident ts < 0 then Inl (RangeError ''Invalid count value'')
      else Inr (ts\<lparr>buffer_ts := buffer_ts ts @ replicate (nat (ident ts)) (CHR 0x09) @ line @ [CHR 0x0A]\<rparr>))"

definition writeColor :: "('a \<Rightarrow> string) \<Rightarrow> string \<Rightarrow> 'a list \<Rightarrow> TokenStream \<Rightarrow> error + TokenStream" where
  "writeColor toStr name view ts =
     writeLine (name @ '' { '' @ template_elem toStr view 2 @ '', '' @ template_elem toStr view 1
                  @ '', '' @ template_elem toStr view 0 @ '' },'') ts"

text \<open>
  A text that \<open>read()\<close> returns whole when a separator follows it: it is not empty and has
  no separator, brace, slash or double quote. The text of a JavaScript number is one
  (digits, sign, point, exponent, \<open>NaN\<close>, \<open>Infinity\<close>), and so is a name such as \<open>Color\<close>.
\<close>

definition plain_char :: "char \<Rightarrow> bool" where
  "plain_char c \<longleftrightarrow> \<not> is_separator c \<and> c \<noteq> CHR ''{'' \<and> c \<noteq> CHR ''}'' \<and> c \<noteq> CHR ''/'' \<and> c \<noteq> CHR 0x22"

definition plain_token :: "string \<Rightarrow> bool" where
  "plain_token t \<longleftrightarrow> t \<noteq> [] \<and> list_all plain_char t"

section \<open>Records loaded from text\<close>

text \<open>A token in a template literal: \<open>undefined\<close> prints as that word.\<close>

definition token_text :: "string option \<Rightarrow> string" where
  "token_text t = (case t of None \<Rightarrow> ''undefined'' | Some x \<Rightarrow> x)"

text \<open>
  \<open>for (let token of stream.readBlock()) body\<close>. The generator \<open>readBlock\<close> reads the opening
  brace, then hands out one token after the other until the token is \<open>}\<close>; the body of the
  \<open>for\<close> loop runs between two of its reads, on the same stream. The body returns the
  state it leaves (\<open>Inr\<close>), or the error it throws (\<open>Inl\<close>), which ends the loop. A loop
  that never ends is \<open>None\<close>.
\<close>

partial_function (option) readBlock_loop ::
    "(string option \<Rightarrow> TokenStream \<Rightarrow> 'a \<Rightarrow> (error + 'a \<times> TokenStream) option)
      \<Rightarrow> TokenStream \<Rightarrow> 'a \<Rightarrow> (error + 'a \<times> TokenStream) option" where
  "readBlock_loop body ts x =
     (case read_ts ts of (token, ts1) \<Rightarrow>
        if token \<noteq> Some ''}'' then
          Option.bind (body token ts1 x)
            (\<lambda>r. case r of
                   Inl e \<Rightarrow> Some (Inl e)
                 | Inr (x', ts2) \<Rightarrow> readBlock_loop body ts2 x')
        else Some (Inr (x, ts1)))"

declare readBlock_loop.simps [code]

definition for_readBlock ::
    "(string option \<Rightarrow> TokenStream \<Rightarrow> 'a \<Rightarrow> (error + 'a \<times> TokenStream) option)
      \<Rightarrow> TokenStream \<Rightarrow> 'a \<Rightarrow> (error + 'a \<times> TokenStream) option" where
  "for_readBlock body ts x =
     (case read_ts ts of (open_brace, ts1) \<Rightarrow> readBlock_loop body ts1 x)"

text \<open>
  Where a block iteration stands after \<open>n\<close> entries: the stream and the record after the
  body has run \<open>n\<close> times, each time on a token that was not the closing brace and without
  throwing. There is no such state (\<open>None\<close>) if the block ends or an entry throws before
  that.
\<close>

fun readBlock_after ::
    "(string option \<Rightarrow> TokenStream \<Rightarrow> 'a \<Rightarrow> (error + 'a \<times> TokenStream) option)
      \<Rightarrow> nat \<Rightarrow> TokenStream \<Rightarrow> 'a \<Rightarrow> ('a \<times> TokenStream) option" where
  "readBlock_after body 0 ts x = Some (x, ts)"
| "readBlock_after body (Suc n) ts x =
     (case read_ts ts of (token, ts1) \<Rightarrow>
        if token \<noteq> Some ''}'' then
          (case body token ts1 x of
             Some (Inr (x', ts2)) \<Rightarrow> readBlock_after body n ts2 x'
           | _ \<Rightarrow> None)
        else None)"

subsection \<open>Texture\<close>

text \<open>
  The path is a JavaScript string, or \<open>undefined\<close> (\<open>None\<close>) when \<open>readMdl\<close> took it from a
  stream that had ended. \<open>replaceableId\<close> and \<open>flags\<close> are numbers; \<open>parseInt\<close> is the
  language's and a parameter here.
\<close>

record Texture =
  replaceableId :: int
  path :: "js_string option"
  flags :: int

text \<open>
  The texts of the token stream are over characters with the codes 0 to 255; as a
  JavaScript string such a text has these codes as its code units.
\<close>

definition code_units :: "string \<Rightarrow> js_string" where
  "code_units str = map (\<lambda>c. of_nat (of_char c)) str"

text \<open>\<open>a | b\<close> on numbers: both are taken as 32-bit integers, and the result is a signed one.\<close>

definition bit_or :: "int \<Rightarrow> int \<Rightarrow> int" where
  "bit_or a b = sint ((word_of_int a :: 32 word) OR word_of_int b)"

definition Texture_new :: Texture where
  "Texture_new = \<lparr>replaceableId = 0, path = Some [], flags = 0\<rparr>"

text \<open>The body of the loop of \<open>Texture.readMdl\<close>.\<close>

definition Texture_readMdl_body ::
    "(string option \<Rightarrow> int) \<Rightarrow> string option \<Rightarrow> TokenStream \<Rightarrow> Texture
      \<Rightarrow> (error + Texture \<times> TokenStream) option" where
  "Texture_readMdl_body parseInt token ts t =
     (if token = Some ''Image'' then
        (case read_ts ts of (v, ts') \<Rightarrow> Some (Inr (t\<lparr>path := map_option code_units v\<rparr>, ts')))
      else if token = Some ''ReplaceableId'' then
        (case read_ts ts of (v, ts') \<Rightarrow> Some (Inr (t\<lparr>replaceableId := parseInt v\<rparr>, ts')))
      else if token = Some ''WrapWidth'' then
        Some (Inr (t\<lparr>flags := bit_or (flags t) 0x1\<rparr>, ts))
      else if token = Some ''WrapHeight'' then
        Some (Inr (t\<lparr>flags := bit_or (flags t) 0x2\<rparr>, ts))
      else Some (Inl (Error (''Unknown token in Texture: '' @ [CHR 0x22] @ token_text token @ [CHR 0x22]))))"

definition Texture_readMdl ::
    "(string option \<Rightarrow> int) \<Rightarrow> TokenStream \<Rightarrow> Texture \<Rightarrow> (error + Texture \<times> TokenStream) option" where
  "Texture_readMdl parseInt ts t = for_readBlock (Texture_readMdl_body parseInt) ts t"

subsection \<open>Camera\<close>

text \<open>
  \<open>readFloatArray(view)\<close>: an opening brace, one number for each slot of the view, a closing
  brace.
\<close>

function readFloatArray_loop ::
    "(string option \<Rightarrow> 'f) \<Rightarrow> nat \<Rightarrow> nat \<Rightarrow> 'f list \<Rightarrow> TokenStream \<Rightarrow> 'f list \<times> TokenStream" where
  "readFloatArray_loop parseFloat i l view ts =
     (if i < l then
        (case readFloat parseFloat ts of (x, ts') \<Rightarrow>
           readFloatArray_loop parseFloat (i + 1) l (view[i := x]) ts')
      else (view, ts))"
  by pat_completeness auto
termination
  by (relation "measure (\<lambda>(parseFloat, i, l, view, ts). l - i)") auto

declare readFloatArray_loop.simps [simp del]

definition readFloatArray :: "(string option \<Rightarrow> 'f) \<Rightarrow> 'f list \<Rightarrow> TokenStream \<Rightarrow> 'f list \<times> TokenStream" where
  "readFloatArray parseFloat view ts =
     (case read_ts ts of (open_brace, ts1) \<Rightarrow>
        (case readFloatArray_loop parseFloat 0 (length view) view ts1 of (view', ts2) \<Rightarrow>
           (case read_ts ts2 of (close_brace, ts3) \<Rightarrow> (view', ts3))))"

text \<open>
  A camera, with numbers of any type \<open>'f\<close>. \<open>Camera\<close> extends \<open>AnimatedObject\<close>, which is not
  among the sources: what that class keeps is the field \<open>animations\<close> of any type \<open>'an\<close>, and
  its method \<open>readAnimation(stream, name)\<close>, which may throw, is the parameter
  \<open>readAnimation\<close> of the loader.
\<close>

record ('f, 'an) Camera =
  name :: "string option"
  position :: "'f list"
  fieldOfView :: 'f
  farClippingPlane :: 'f
  nearClippingPlane :: 'f
  targetPosition :: "'f list"
  animations :: 'an

text \<open>The body of the inner loop of \<open>Camera.readMdl\<close>, over the block of \<open>Target\<close>.\<close>

definition Camera_readMdl_target_body ::
    "(string option \<Rightarrow> 'f) \<Rightarrow> (string \<Rightarrow> TokenStream \<Rightarrow> 'an \<Rightarrow> error + 'an \<times> TokenStream)
      \<Rightarrow> string option \<Rightarrow> TokenStream \<Rightarrow> ('f, 'an) Camera
      \<Rightarrow> (error + ('f, 'an) Camera \<times> TokenStream) option" where
  "Camera_readMdl_target_body parseFloat readAnimation token ts cam =
     (if token = Some ''Position'' then
        (case readFloatArray parseFloat (targetPosition cam) ts of (v, ts') \<Rightarrow>
           Some (Inr (cam\<lparr>targetPosition := v\<rparr>, ts')))
      else if token = Some ''Translation'' then
        (case readAnimation ''KTTR'' ts (animations cam) of
           Inl e \<Rightarrow> Some (Inl e)
         | Inr (a, ts') \<Rightarrow> Some (Inr (cam\<lparr>animations := a\<rparr>, ts')))
      else Some (Inl (Error (''Unknown token in Camera '' @ token_text (name cam) @ [CHR 0x27]
                               @ ''s Target: '' @ [CHR 0x22] @ token_text token @ [CHR 0x22]))))"

text \<open>The body of the outer loop of \<open>Camera.readMdl\<close>.\<close>

definition Camera_readMdl_body ::
    "(string option \<Rightarrow> 'f) \<Rightarrow> (string \<Rightarrow> TokenStream \<Rightarrow> 'an \<Rightarrow> error + 'an \<times> TokenStream)
      \<Rightarrow> string option \<Rightarrow> TokenStream \<Rightarrow> ('f, 'an) Camera
      \<Rightarrow> (error + ('f, 'an) Camera \<times> TokenStream) option" where
  "Camera_readMdl_body parseFloat readAnimation token ts cam =
     (if token = Some ''Position'' then
        (case readFloatArray parseFloat (position cam) ts of (v, ts') \<Rightarrow>
           Some (Inr (cam\<lparr>position := v\<rparr>, ts')))
      else if token = Some ''Translation'' then
        (case readAnimation ''KCTR'' ts (animations cam) of
           Inl e \<Rightarrow> Some (Inl e)
         | Inr (a, ts') \<Rightarrow> Some (Inr (cam\<lparr>animations := a\<rparr>, ts')))
      else if token = Some ''Rotation'' then
        (case readAnimation ''KCRL'' ts (animations cam) of
           Inl e \<Rightarrow> Some (Inl e)
         | Inr (a, ts') \<Rightarrow> Some (Inr (cam\<lparr>animations := a\<rparr>, ts')))
      else if token = Some ''FieldOfView'' then
        (case readFloat parseFloat ts of (x, ts') \<Rightarrow> Some (Inr (cam\<lparr>fieldOfView := x\<rparr>, ts')))
      else if token = Some ''FarClip'' then
        (case readFloat parseFloat ts of (x, ts') \<Rightarrow> Some (Inr (cam\<lparr>farClippingPlane := x\<rparr>, ts')))
      else if token = Some ''NearClip'' then
        (case readFloat parseFloat ts of (x, ts') \<Rightarrow> Some (Inr (cam\<lparr>nearClippingPlane := x\<rparr>, ts')))
      else if token = Some ''Target'' then
        for_readBlock (Camera_readMdl_target_body parseFloat readAnimation) ts cam
      else Some (Inl (Error (''Unknown token in Camera '' @ token_text (name cam) @ '': ''
                               @ [CHR 0x22] @ token_text token @ [CHR 0x22]))))"

definition Camera_readMdl ::
    "(string option \<Rightarrow> 'f) \<Rightarrow> (string \<Rightarrow> TokenStream \<Rightarrow> 'an \<Rightarrow> error + 'an \<times> TokenStream)
      \<Rightarrow> TokenStream \<Rightarrow> ('f, 'an) Camera \<Rightarrow> (error + ('f, 'an) Camera \<times> TokenStream) option" where
  "Camera_readMdl parseFloat readAnimation ts cam =
     (case read_ts ts of (nm, ts1) \<Rightarrow>
        for_readBlock (Camera_readMdl_body parseFloat readAnimation) ts1 (cam\<lparr>name := nm\<rparr>))"

section \<open>Writing to a binary stream\<close>

text \<open>
  A write changes the bytes of the buffer on the heap and the index of the stream; the
  state of a sequence of writes is the pair of both.
\<close>

type_synonym wstate = "heap \<times> BinaryStream"

text \<open>\<open>new ArrayBuffer(n)\<close>: a fresh buffer of \<open>n\<close> zero bytes, and its address.\<close>

definition new_ArrayBuffer :: "heap \<Rightarrow> nat \<Rightarrow> heap \<times> nat" where
  "new_ArrayBuffer h n = (h @ [replicate n 0], length h)"

text \<open>The loop \<open>uint8array[i + k] = bytes[k]\<close> for \<open>k = 0, 1, ...\<close> that every write runs.\<close>

primrec store_bytes :: "heap \<Rightarrow> Uint8Array \<Rightarrow> int \<Rightarrow> byte list \<Rightarrow> heap" where
  "store_bytes h v i [] = h"
| "store_bytes h v i (b # bs) = store_bytes (u8_set h v i b) v (i + 1) bs"

text \<open>
  \<open>write(value)\<close>, for a string: the loop \<open>uint8array[index + i] = value.charCodeAt(i)\<close> stores
  one byte for each code unit, \<open>string_bytes value\<close>, and the index moves by the length of
  the string.
\<close>

definition string_bytes :: "js_string \<Rightarrow> byte list" where
  "string_bytes str = map (\<lambda>c. ToUint8 (charCodeAt c)) str"

definition write_str :: "js_string \<Rightarrow> wstate \<Rightarrow> wstate" where
  "write_str str st =
     (case st of (h, s) \<Rightarrow>
        (store_bytes h (uint8array s) (index s) (string_bytes str),
         s\<lparr>index := index s + int (length str)\<rparr>))"

definition writeInt32 :: "int \<Rightarrow> wstate \<Rightarrow> wstate" where
  "writeInt32 v st =
     (case st of (h, s) \<Rightarrow>
        (store_bytes h (uint8array s) (index s) (int32ToUint8 v), s\<lparr>index := index s + 4\<rparr>))"

definition writeUint32 :: "int \<Rightarrow> wstate \<Rightarrow> wstate" where
  "writeUint32 v st =
     (case st of (h, s) \<Rightarrow>
        (store_bytes h (uint8array s) (index s) (uint32ToUint8 v), s\<lparr>index := index s + 4\<rparr>))"

definition writeFloat32 :: "32 word \<Rightarrow> wstate \<Rightarrow> wstate" where
  "writeFloat32 v st =
     (case st of (h, s) \<Rightarrow>
        (store_bytes h (uint8array s) (index s) (float32ToUint8 v), s\<lparr>index := index s + 4\<rparr>))"

text \<open>
  The loop of the writers of arrays of 32-bit elements: element \<open>i\<close> goes to
  \<open>offset = index + i * 4\<close>; \<open>cast\<close> is the type cast of the element kind. An element of an
  Int32Array is handed to its cast as the signed number it holds.
\<close>

primrec store_elements :: "(32 word \<Rightarrow> byte list) \<Rightarrow> heap \<Rightarrow> Uint8Array \<Rightarrow> int \<Rightarrow> 32 word list \<Rightarrow> heap" where
  "store_elements cast h v offset [] = h"
| "store_elements cast h v offset (x # xs) =
     store_elements cast (store_bytes h v offset (cast x)) v (offset + 4) xs"

definition writeFloat32Array :: "32 word list \<Rightarrow> wstate \<Rightarrow> wstate" where
  "writeFloat32Array view st =
     (case st of (h, s) \<Rightarrow>
        (store_elements float32ToUint8 h (uint8array s) (index s) view,
         s\<lparr>index := index s + int (4 * length view)\<rparr>))"

definition writeInt32Array :: "32 word list \<Rightarrow> wstate \<Rightarrow> wstate" where
  "writeInt32Array view st =
     (case st of (h, s) \<Rightarrow>
        (store_elements (\<lambda>x. int32ToUint8 (sint x)) h (uint8array s) (index s) view,
         s\<lparr>index := index s + int (4 * length view)\<rparr>))"

definition writeUint8Array :: "byte list \<Rightarrow> wstate \<Rightarrow> wstate" where
  "writeUint8Array view st =
     (case st of (h, s) \<Rightarrow>
        (store_bytes h (uint8array s) (index s) view, s\<lparr>index := index s + int (length view)\<rparr>))"

definition skip_w :: "int \<Rightarrow> wstate \<Rightarrow> wstate" where
  "skip_w bytes st = (case st of (h, s) \<Rightarrow> (h, skip bytes s))"

subsection \<open>Strings that end with a null byte\<close>

text \<open>
  The loop of \<open>peekUntilNull\<close> goes on while \<open>b !== 0\<close>. Outside the view \<open>b\<close> is
  \<open>undefined\<close>, which is not 0 either, so without a null byte ahead the loop never ends:
  that is the result \<open>None\<close>.
\<close>

partial_function (option) peekUntilNull_loop ::
    "heap \<Rightarrow> BinaryStream \<Rightarrow> js_string \<Rightarrow> byte option \<Rightarrow> int \<Rightarrow> js_string option" where
  "peekUntilNull_loop h s data b i =
     (if b \<noteq> Some 0 then
        peekUntilNull_loop h s (data @ [fromCharCode b])
          (u8_get h (uint8array s) (index s + (i + 1))) (i + 1)
      else Some data)"

declare peekUntilNull_loop.simps [code]

definition peekUntilNull :: "heap \<Rightarrow> BinaryStream \<Rightarrow> js_string option" where
  "peekUntilNull h s = peekUntilNull_loop h s [] (u8_get h (uint8array s) (index s)) 0"

definition readUntilNull :: "heap \<Rightarrow> BinaryStream \<Rightarrow> (js_string \<times> BinaryStream) option" where
  "readUntilNull h s =
     (case peekUntilNull h s of
        None \<Rightarrow> None
      | Some data \<Rightarrow> Some (data, s\<lparr>index := index s + int (length data) + 1\<rparr>))"

subsection \<open>Texture in the binary format\<close>

definition Texture_readMdx :: "heap \<Rightarrow> BinaryStream \<Rightarrow> Texture \<Rightarrow> Texture \<times> BinaryStream" where
  "Texture_readMdx h s t =
     (case readUint32 h s of (r, s1) \<Rightarrow>
        (case read h s1 260 False of (p, s2) \<Rightarrow>
           (case readUint32 h s2 of (f, s3) \<Rightarrow>
              (t\<lparr>replaceableId := r, path := Some p, flags := f\<rparr>, s3))))"

text \<open>\<open>writeMdx\<close>: with an \<open>undefined\<close> path, \<open>stream.write(this.path)\<close> is a TypeError.\<close>

definition Texture_writeMdx :: "Texture \<Rightarrow> wstate \<Rightarrow> error + wstate" where
  "Texture_writeMdx t st =
     (let st1 = writeUint32 (replaceableId t) st in
      case path t of
        None \<Rightarrow> Inl (TypeError ''Cannot read properties of undefined (reading length)'')
      | Some p \<Rightarrow>
          (let st2 = write_str p st1;
               st3 = skip_w (260 - int (length p)) st2;
               st4 = writeUint32 (flags t) st3
           in Inr st4))"

section \<open>Map files\<close>

subsection \<open>War3MapWct\<close>

text \<open>
  Modelled from the spec: the class \<open>CustomTextTrigger\<close> (\<open>./customtexttrigger\<close>) is not
  among the sources. The spec's pattern for a record: \<open>save(stream)\<close> writes the fields at
  the index of the stream, in a fixed order, and leaves the index behind them; the
  constructor from a stream reads them back in the same order; \<open>getByteLength()\<close> is the
  number of bytes that \<open>save\<close> produces. Here the bytes that \<open>save\<close> writes for a trigger
  \<open>t\<close> are \<open>enc t\<close>, the constructor decodes the bytes ahead of the index with \<open>dec\<close>, which
  gives the trigger and the number of bytes it took, and \<open>getByteLength()\<close> is \<open>len t\<close>;
  \<open>enc\<close>, \<open>dec\<close> and \<open>len\<close> are parameters.
\<close>

definition bytes_ahead :: "heap \<Rightarrow> BinaryStream \<Rightarrow> byte list" where
  "bytes_ahead h s =
     map (\<lambda>k. to_uint8 (u8_get h (uint8array s) (index s + int k)))
       [0..<nat (int (view_length (uint8array s)) - index s)]"

definition CustomTextTrigger_save :: "('t \<Rightarrow> byte list) \<Rightarrow> 't \<Rightarrow> wstate \<Rightarrow> wstate" where
  "CustomTextTrigger_save enc t st = writeUint8Array (enc t) st"

definition CustomTextTrigger_new :: "(byte list \<Rightarrow> 't \<times> nat) \<Rightarrow> heap \<Rightarrow> BinaryStream \<Rightarrow> 't \<times> BinaryStream" where
  "CustomTextTrigger_new dec h s =
     (case dec (bytes_ahead h s) of (t, n) \<Rightarrow> (t, s\<lparr>index := index s + int n\<rparr>))"

record 't War3MapWct =
  wct_version :: int
  wct_comment :: js_string
  wct_trigger :: "'t option"
  wct_triggers :: "'t list"

text \<open>\<open>getByteLength()\<close>; with version 1 and no trigger, \<open>this.trigger.getByteLength()\<close> is a TypeError.\<close>

definition War3MapWct_getByteLength :: "('t \<Rightarrow> nat) \<Rightarrow> 't War3MapWct \<Rightarrow> error + nat" where
  "War3MapWct_getByteLength len w =
     (case (if wct_version w = 1 then
              (case wct_trigger w of
                 None \<Rightarrow> Inl (TypeError ''Cannot read properties of null (reading getByteLength)'')
               | Some t \<Rightarrow> Inr (8 + (length (wct_comment w) + 1 + len t)))
            else Inr 8) of
        Inl e \<Rightarrow> Inl e
      | Inr size1 \<Rightarrow> Inr (foldl (\<lambda>size0 t. size0 + len t) size1 (wct_triggers w)))"

text \<open>
  \<open>save()\<close>, up to its last write: the address of the new buffer, the heap and the stream.
  \<open>save()\<close> itself returns the buffer.
\<close>

definition War3MapWct_save_stream ::
    "('t \<Rightarrow> nat) \<Rightarrow> ('t \<Rightarrow> byte list) \<Rightarrow> heap \<Rightarrow> 't War3MapWct \<Rightarrow> error + nat \<times> wstate" where
  "War3MapWct_save_stream len enc h w =
     (case War3MapWct_getByteLength len w of
        Inl e \<Rightarrow> Inl e
      | Inr n \<Rightarrow>
          (case new_ArrayBuffer h n of (h1, buf) \<Rightarrow>
             (case BinaryStream_new h1 (ArrayBufferRef buf) None None of
                Inl e \<Rightarrow> Inl e
              | Inr stream \<Rightarrow>
                  (let st1 = writeInt32 (wct_version w) (h1, stream) in
                   case (if wct_version w = 1 then
                           (case wct_trigger w of
                              None \<Rightarrow> Inl (TypeError ''Cannot read properties of null (reading save)'')
                            | Some t \<Rightarrow>
                                Inr (CustomTextTrigger_save enc t
                                       (write_str (wct_comment w @ [0]) st1)))
                         else Inr st1) of
                     Inl e \<Rightarrow> Inl e
                   | Inr st2 \<Rightarrow>
                       (let st3 = writeUint32 (int (length (wct_triggers w))) st2
                        in Inr (buf, fold (CustomTextTrigger_save enc) (wct_triggers w) st3))))))"

definition War3MapWct_save ::
    "('t \<Rightarrow> nat) \<Rightarrow> ('t \<Rightarrow> byte list) \<Rightarrow> heap \<Rightarrow> 't War3MapWct \<Rightarrow> error + heap \<times> nat" where
  "War3MapWct_save len enc h w =
     (case War3MapWct_save_stream len enc h w of
        Inl e \<Rightarrow> Inl e
      | Inr (buf, (h', s)) \<Rightarrow> Inr (h', buf))"

text \<open>\<open>this.triggers[i] = x\<close>; in \<open>load\<close> the index \<open>i\<close> is never past the end of the array.\<close>

definition set_index :: "'a list \<Rightarrow> nat \<Rightarrow> 'a \<Rightarrow> 'a list" where
  "set_index xs i x = (if i < length xs then xs[i := x] else xs @ [x])"

function load_triggers ::
    "(byte list \<Rightarrow> 't \<times> nat) \<Rightarrow> heap \<Rightarrow> nat \<Rightarrow> nat \<Rightarrow> 't list \<Rightarrow> BinaryStream \<Rightarrow> 't list \<times> BinaryStream" where
  "load_triggers dec h i l trs s =
     (if i < l then
        (case CustomTextTrigger_new dec h s of (t, s') \<Rightarrow>
           load_triggers dec h (i + 1) l (set_index trs i t) s')
      else (trs, s))"
  by pat_completeness auto
termination
  by (relation "measure (\<lambda>(dec, h, i, l, trs, s). l - i)") auto

declare load_triggers.simps [simp del]

text \<open>\<open>load(buffer)\<close> on the object \<open>this\<close>; \<open>None\<close> if a string is read without end.\<close>

definition War3MapWct_load ::
    "(byte list \<Rightarrow> 't \<times> nat) \<Rightarrow> heap \<Rightarrow> ctor_arg \<Rightarrow> 't War3MapWct \<Rightarrow> (error + 't War3MapWct) option" where
  "War3MapWct_load dec h buf this =
     (case BinaryStream_new h buf None None of
        Inl e \<Rightarrow> Some (Inl e)
      | Inr stream \<Rightarrow>
          (case readInt32 h stream of (v, s1) \<Rightarrow>
             (case (if v = 1 then
                      (case readUntilNull h s1 of
                         None \<Rightarrow> None
                       | Some (c, s2) \<Rightarrow>
                           (case CustomTextTrigger_new dec h s2 of (t, s3) \<Rightarrow>
                              Some (this\<lparr>wct_version := v, wct_comment := c, wct_trigger := Some t\<rparr>, s3)))
                    else Some (this\<lparr>wct_version := v\<rparr>, s1)) of
                None \<Rightarrow> None
              | Some (this1, s4) \<Rightarrow>
                  (case readUint32 h s4 of (l, s5) \<Rightarrow>
                     (case load_triggers dec h 0 (nat l) (wct_triggers this1) s5 of (trs, s6) \<Rightarrow>
                        Some (Inr (this1\<lparr>wct_triggers := trs\<rparr>)))))))"

text \<open>\<open>new War3MapWct(buffer)\<close>.\<close>

definition War3MapWct_new ::
    "(byte list \<Rightarrow> 't \<times> nat) \<Rightarrow> heap \<Rightarrow> ctor_arg option \<Rightarrow> (error + 't War3MapWct) option" where
  "War3MapWct_new dec h buf =
     (let this = \<lparr>wct_version = 0, wct_comment = [], wct_trigger = None, wct_triggers = []\<rparr>
      in case buf of None \<Rightarrow> Some (Inr this) | Some b \<Rightarrow> War3MapWct_load dec h b this)"

subsection \<open>War3MapW3i\<close>

text \<open>
  The classes of the sub-records (\<open>Player\<close>, \<open>Force\<close>, \<open>UpgradeAvailabilityChange\<close>,
  \<open>TechAvailabilityChange\<close>, \<open>RandomUnitTable\<close>, \<open>RandomItemTable\<close>) are not among the
  sources. Their \<open>save(stream)\<close> and \<open>getByteLength()\<close> methods are parameters, bundled in a
  record; the two kinds of availability change have no \<open>getByteLength\<close> that the map
  information calls.
\<close>

record ('p, 'f, 'u, 't, 'ru, 'ri) W3i_parts =
  Player_save :: "'p \<Rightarrow> wstate \<Rightarrow> wstate"
  Player_getByteLength :: "'p \<Rightarrow> nat"
  Force_save :: "'f \<Rightarrow> wstate \<Rightarrow> wstate"
  Force_getByteLength :: "'f \<Rightarrow> nat"
  UpgradeAvailabilityChange_save :: "'u \<Rightarrow> wstate \<Rightarrow> wstate"
  TechAvailabilityChange_save :: "'t \<Rightarrow> wstate \<Rightarrow> wstate"
  RandomUnitTable_save :: "'ru \<Rightarrow> wstate \<Rightarrow> wstate"
  RandomUnitTable_getByteLength :: "'ru \<Rightarrow> nat"
  RandomItemTable_save :: "'ri \<Rightarrow> wstate \<Rightarrow> wstate"
  RandomItemTable_getByteLength :: "'ri \<Rightarrow> nat"

text \<open>
  The map information. Numbers are whole numbers, but for \<open>fogDensity\<close>, which is written
  as a 32-bit float and carried as its bit pattern; typed arrays are the lists of their
  elements, strings the lists of their code units.
\<close>

record ('p, 'f, 'u, 't, 'ru, 'ri) War3MapW3i =
  w3i_version :: int
  w3i_saves :: int
  w3i_editorVersion :: int
  w3i_name :: js_string
  w3i_author :: js_string
  w3i_description :: js_string
  w3i_recommendedPlayers :: js_string
  w3i_cameraBounds :: "32 word list"
  w3i_cameraBoundsComplements :: "32 word list"
  w3i_playableSize :: "32 word list"
  w3i_flags :: int
  w3i_tileset :: js_string
  w3i_campaignBackground :: int
  w3i_loadingScreenModel :: js_string
  w3i_loadingScreenText :: js_string
  w3i_loadingScreenTitle :: js_string
  w3i_loadingScreenSubtitle :: js_string
  w3i_loadingScreen :: int
  w3i_prologueScreenModel :: js_string
  w3i_prologueScreenText :: js_string
  w3i_prologueScreenTitle :: js_string
  w3i_prologueScreenSubtitle :: js_string
  w3i_useTerrainFog :: int
  w3i_fogHeight :: "32 word list"
  w3i_fogDensity :: "32 word"
  w3i_fogColor :: "byte list"
  w3i_globalWeather :: int
  w3i_soundEnvironment :: js_string
  w3i_lightEnvironmentTileset :: js_string
  w3i_waterVertexColor :: "byte list"
  w3i_players :: "'p list"
  w3i_forces :: "'f list"
  w3i_upgradeAvailabilityChanges :: "'u list"
  w3i_techAvailabilityChanges :: "'t list"
  w3i_randomUnitTables :: "'ru list"
  w3i_randomItemTables :: "'ri list"


definition War3MapW3i_getByteLength ::
    "('p, 'f, 'u, 't, 'ru, 'ri) W3i_parts \<Rightarrow> ('p, 'f, 'u, 't, 'ru, 'ri) War3MapW3i \<Rightarrow> nat" where
  "War3MapW3i_getByteLength P w =
     (let size0 = 111 + length (w3i_name w) + length (w3i_author w) + length (w3i_description w)
                    + length (w3i_recommendedPlayers w) + length (w3i_loadingScreenText w)
                    + length (w3i_loadingScreenTitle w) + length (w3i_loadingScreenSubtitle w)
                    + length (w3i_prologueScreenText w) + length (w3i_prologueScreenTitle w)
                    + length (w3i_prologueScreenSubtitle w);
          size1 = foldl (\<lambda>n player. n + Player_getByteLength P player) size0 (w3i_players w);
          size2 = foldl (\<lambda>n force. n + Force_getByteLength P force) size1 (w3i_forces w);
          size3 = size2 + length (w3i_upgradeAvailabilityChanges w) * 16;
          size4 = size3 + length (w3i_techAvailabilityChanges w) * 8;
          size5 = foldl (\<lambda>n table. n + RandomUnitTable_getByteLength P table) size4 (w3i_randomUnitTables w)
      in if w3i_version w > 24 then
           (let size6 = size5 + (36 + length (w3i_loadingScreenModel w) + length (w3i_prologueScreenModel w)
                                  + length (w3i_soundEnvironment w))
            in foldl (\<lambda>n table. n + RandomItemTable_getByteLength P table) size6 (w3i_randomItemTables w))
         else size5)"

text \<open>\<open>save()\<close>, up to its last write: the address of the new buffer, the heap and the stream.\<close>

definition War3MapW3i_save_stream ::
    "('p, 'f, 'u, 't, 'ru, 'ri) W3i_parts \<Rightarrow> heap \<Rightarrow> ('p, 'f, 'u, 't, 'ru, 'ri) War3MapW3i
      \<Rightarrow> error + nat \<times> wstate" where
  "War3MapW3i_save_stream P h w =
     (case new_ArrayBuffer h (War3MapW3i_getByteLength P w) of (h1, buf) \<Rightarrow>
        (case BinaryStream_new h1 (ArrayBufferRef buf) None None of
           Inl e \<Rightarrow> Inl e
         | Inr stream \<Rightarrow>
             (let nul = [0];
                  st = (h1, stream);
                  st = writeInt32 (w3i_version w) st;
                  st = writeInt32 (w3i_saves w) st;
                  st = writeInt32 (w3i_editorVersion w) st;
                  st = write_str (w3i_name w @ nul) st;
                  st = write_str (w3i_author w @ nul) st;
                  st = write_str (w3i_description w @ nul) st;
                  st = write_str (w3i_recommendedPlayers w @ nul) st;
                  st = writeFloat32Array (w3i_cameraBounds w) st;
                  st = writeInt32Array (w3i_cameraBoundsComplements w) st;
                  st = writeInt32Array (w3i_playableSize w) st;
                  st = writeUint32 (w3i_flags w) st;
                  st = write_str (w3i_tileset w) st;
                  st = writeInt32 (w3i_campaignBackground w) st;
                  st = (if w3i_version w > 24
                        then write_str (w3i_loadingScreenModel w @ nul) st else st);
                  st = write_str (w3i_loadingScreenText w @ nul) st;
                  st = write_str (w3i_loadingScreenTitle w @ nul) st;
                  st = write_str (w3i_loadingScreenSubtitle w @ nul) st;
                  st = writeInt32 (w3i_loadingScreen w) st;
                  st = (if w3i_version w > 24
                        then write_str (w3i_prologueScreenModel w @ nul) st else st);
                  st = write_str (w3i_prologueScreenText w @ nul) st;
                  st = write_str (w3i_prologueScreenTitle w @ nul) st;
                  st = write_str (w3i_prologueScreenSubtitle w @ nul) st;
                  st = (if w3i_version w > 24 then
                          (let st = writeInt32 (w3i_useTerrainFog w) st;
                               st = writeFloat32Array (w3i_fogHeight w) st;
                               st = writeFloat32 (w3i_fogDensity w) st;
                               st = writeUint8Array (w3i_fogColor w) st;
                               st = writeInt32 (w3i_globalWeather w) st;
                               st = write_str (w3i_soundEnvironment w @ nul) st;
                               st = write_str (w3i_lightEnvironmentTileset w) st;
                               st = writeUint8Array (w3i_waterVertexColor w) st
                           in st)
                        else st);
                  st = writeUint32 (int (length (w3i_players w))) st;
                  st = fold (Player_save P) (w3i_players w) st;
                  st = writeUint32 (int (length (w3i_forces w))) st;
                  st = fold (Force_save P) (w3i_forces w) st;
                  st = writeUint32 (int (length (w3i_upgradeAvailabilityChanges w))) st;
                  st = fold (UpgradeAvailabilityChange_save P) (w3i_upgradeAvailabilityChanges w) st;
                  st = writeUint32 (int (length (w3i_techAvailabilityChanges w))) st;
                  st = fold (TechAvailabilityChange_save P) (w3i_techAvailabilityChanges w) st;
                  st = writeUint32 (int (length (w3i_randomUnitTables w))) st;
                  st = fold (RandomUnitTable_save P) (w3i_randomUnitTables w) st;
                  st = (if w3i_version w > 24 then
                          (let st = writeUint32 (int (length (w3i_randomItemTables w))) st;
                               st = fold (RandomItemTable_save P) (w3i_randomItemTables w) st
                           in st)
                        else st)
              in Inr (buf, st))))"

definition War3MapW3i_save ::
    "('p, 'f, 'u, 't, 'ru, 'ri) W3i_parts \<Rightarrow> heap \<Rightarrow> ('p, 'f, 'u, 't, 'ru, 'ri) War3MapW3i
      \<Rightarrow> error + heap \<times> nat" where
  "War3MapW3i_save P h w =
     (case War3MapW3i_save_stream P h w of
        Inl e \<Rightarrow> Inl e
      | Inr (buf, (h', s)) \<Rightarrow> Inr (h', buf))"

subsection \<open>The state of a stream over a new buffer\<close>

text \<open>
  Notions for the properties of \<open>save\<close> and \<open>load\<close>. \<open>wrote a n bs st\<close>: the state \<open>st\<close> is
  that of a stream over the buffer of \<open>n\<close> bytes at address \<open>a\<close>, made by
  \<open>new BinaryStream(buffer)\<close>, after the bytes \<open>bs\<close> were written from index 0 on, the rest of
  the buffer being zero as in a new buffer. \<open>wrote_over old a bs st\<close> is the same for a buffer
  that held the bytes \<open>old\<close> before: what lies behind the index is still what \<open>old\<close> had
  there. \<open>War3MapWct_bytes\<close>: the bytes of a trigger file, in the order of the fields.
\<close>

definition whole_stream :: "nat \<Rightarrow> nat \<Rightarrow> int \<Rightarrow> BinaryStream" where
  "whole_stream a n i =
     \<lparr>buffer = a, uint8array = \<lparr>view_buffer = a, view_byteOffset = 0, view_length = n\<rparr>,
      index = i, byteLength = n\<rparr>"

definition wrote :: "nat \<Rightarrow> nat \<Rightarrow> byte list \<Rightarrow> wstate \<Rightarrow> bool" where
  "wrote a n bs st \<longleftrightarrow>
     (case st of (h, s) \<Rightarrow>
        s = whole_stream a n (int (length bs)) \<and> a < length h \<and> length bs \<le> n
        \<and> h ! a = bs @ replicate (n - length bs) 0)"

definition wrote_over :: "byte list \<Rightarrow> nat \<Rightarrow> byte list \<Rightarrow> wstate \<Rightarrow> bool" where
  "wrote_over old a bs st \<longleftrightarrow>
     (case st of (h, s) \<Rightarrow>
        s = whole_stream a (length old) (int (length bs)) \<and> a < length h \<and> length bs \<le> length old
        \<and> h ! a = bs @ drop (length bs) old)"

definition War3MapWct_bytes :: "('t \<Rightarrow> byte list) \<Rightarrow> 't War3MapWct \<Rightarrow> byte list" where
  "War3MapWct_bytes enc w =
     int32ToUint8 (wct_version w)
     @ (if wct_version w = 1
        then string_bytes (wct_comment w) @ [0] @ (case wct_trigger w of None \<Rightarrow> [] | Some t \<Rightarrow> enc t)
        else [])
     @ uint32ToUint8 (int (length (wct_triggers w)))
     @ concat (map enc (wct_triggers w))"

section \<open>Animation tracks of a global sequence\<close>

text \<open>
  The value of a keyframe is a number or a typed array of numbers. Numbers are of any
  type \<open>'a\<close>; an array carries the identity of the object, which is what \<open>!==\<close> compares
  between two arrays.
\<close>

datatype 'a track_value = Scalar 'a | Vector nat "'a list"

record 'a MdxParserTrack =
  frame :: int
  kvalue :: "'a track_value"
  inTan :: "'a track_value"
  outTan :: "'a track_value"

record 'a MdxSdSequence =
  seq_start :: int
  seq_end :: int
  seq_keyframes :: "'a MdxParserTrack list"
  seq_constant :: bool
  seq_value :: "'a track_value option"

text \<open>\<open>value.length > 0\<close>: a number has no length, and \<open>undefined > 0\<close> is false.\<close>

definition has_elements :: "'a track_value \<Rightarrow> bool" where
  "has_elements v = (case v of Scalar x \<Rightarrow> False | Vector r xs \<Rightarrow> length xs > 0)"

definition value_length :: "'a track_value \<Rightarrow> nat" where
  "value_length v = (case v of Scalar x \<Rightarrow> 0 | Vector r xs \<Rightarrow> length xs)"

text \<open>\<open>v[j]\<close>: \<open>undefined\<close> for a number and outside an array.\<close>

definition value_elem :: "'a track_value \<Rightarrow> nat \<Rightarrow> 'a option" where
  "value_elem v j = (case v of Scalar x \<Rightarrow> None | Vector r xs \<Rightarrow> if j < length xs then Some (xs ! j) else None)"

text \<open>
  \<open>a !== b\<close>. On two numbers it is the parameter \<open>sne\<close> (strict inequality of the
  language's numbers); on two arrays it compares identities; a number, an array and
  \<open>undefined\<close> differ from one another.
\<close>

definition elem_sne :: "('a \<Rightarrow> 'a \<Rightarrow> bool) \<Rightarrow> 'a option \<Rightarrow> 'a option \<Rightarrow> bool" where
  "elem_sne sne a b =
     (case (a, b) of (Some x, Some y) \<Rightarrow> sne x y | (None, None) \<Rightarrow> False | _ \<Rightarrow> True)"

definition value_sne :: "('a \<Rightarrow> 'a \<Rightarrow> bool) \<Rightarrow> 'a track_value \<Rightarrow> 'a track_value \<Rightarrow> bool" where
  "value_sne sne a b =
     (case (a, b) of
        (Scalar x, Scalar y) \<Rightarrow> sne x y
      | (Vector r xs, Vector r' ys) \<Rightarrow> r \<noteq> r'
      | _ \<Rightarrow> True)"

text \<open>The loop that keeps the keyframes with \<open>start <= frame <= end\<close>.\<close>

primrec push_in_range ::
    "int \<Rightarrow> int \<Rightarrow> 'a MdxParserTrack list \<Rightarrow> 'a MdxParserTrack list \<Rightarrow> 'a MdxParserTrack list" where
  "push_in_range start end0 [] kept = kept"
| "push_in_range start end0 (keyframe # rest) kept =
     push_in_range start end0 rest
       (if frame keyframe \<ge> start \<and> frame keyframe \<le> end0 then kept @ [keyframe] else kept)"

text \<open>The inner loop of the test for a constant sequence: is there a \<open>j\<close> with \<open>firstValue[j] !== value[j]\<close>?\<close>

function elements_differ ::
    "('a \<Rightarrow> 'a \<Rightarrow> bool) \<Rightarrow> 'a track_value \<Rightarrow> 'a track_value \<Rightarrow> nat \<Rightarrow> nat \<Rightarrow> bool" where
  "elements_differ sne firstValue v j k =
     (if j < k then
        (if elem_sne sne (value_elem firstValue j) (value_elem v j) then True
         else elements_differ sne firstValue v (j + 1) k)
      else False)"
  by pat_completeness auto
termination
  by (relation "measure (\<lambda>(sne, firstValue, v, j, k). k - j)") auto

declare elements_differ.simps [simp del]

text \<open>The outer loop, from the second keyframe on; \<open>constant\<close> starts as true.\<close>

function constant_loop ::
    "('a \<Rightarrow> 'a \<Rightarrow> bool) \<Rightarrow> 'a MdxParserTrack list \<Rightarrow> 'a track_value \<Rightarrow> nat \<Rightarrow> nat \<Rightarrow> bool \<Rightarrow> bool" where
  "constant_loop sne kfs firstValue i l constant =
     (if i < l then
        (let v = kvalue (kfs ! i) in
         if has_elements v then
           constant_loop sne kfs firstValue (i + 1) l
             (if elements_differ sne firstValue v 0 (value_length v) then False else constant)
         else if value_sne sne v firstValue then False
         else constant_loop sne kfs firstValue (i + 1) l constant)
      else constant)"
  by pat_completeness auto
termination
  by (relation "measure (\<lambda>(sne, kfs, firstValue, i, l, constant). l - i)") auto

declare constant_loop.simps [simp del]

text \<open>
  The constructor of \<open>MdxSdSequence\<close>; \<open>defval\<close> is \<open>sd.defval\<close>. With a global sequence and
  no keyframe at all, \<open>keyframes[0].frame\<close> is a TypeError. A sequence that is not
  constant has no \<open>value\<close>.
\<close>

definition MdxSdSequence_new ::
    "('a \<Rightarrow> 'a \<Rightarrow> bool) \<Rightarrow> 'a track_value \<Rightarrow> int \<Rightarrow> int \<Rightarrow> 'a MdxParserTrack list \<Rightarrow> bool
      \<Rightarrow> error + 'a MdxSdSequence" where
  "MdxSdSequence_new sne defval start end0 keyframes isGlobalSequence =
     (if isGlobalSequence \<and> keyframes = [] then
        Inl (TypeError ''Cannot read properties of undefined (reading frame)'')
      else
        (let first_out = (if isGlobalSequence \<and> frame (hd keyframes) > end0 then [hd keyframes] else []);
             kfs = push_in_range start end0 keyframes first_out
         in case kfs of
              [] \<Rightarrow> Inr \<lparr>seq_start = start, seq_end = end0, seq_keyframes = kfs,
                        seq_constant = True, seq_value = Some defval\<rparr>
            | [k] \<Rightarrow> Inr \<lparr>seq_start = start, seq_end = end0, seq_keyframes = kfs,
                         seq_constant = True, seq_value = Some (kvalue k)\<rparr>
            | k # k' # others \<Rightarrow>
                (let firstValue = kvalue k;
                     constant = constant_loop sne kfs firstValue 1 (length kfs) True
                 in if constant then
                      Inr \<lparr>seq_start = start, seq_end = end0, seq_keyframes = kfs,
                           seq_constant = True, seq_value = Some firstValue\<rparr>
                    else
                      (let kfs1 = (if frame (kfs ! 0) \<noteq> start
                                   then \<lparr>frame = start, kvalue = defval, inTan = defval, outTan = defval\<rparr> # kfs
                                   else kfs);
                           kfs2 = (if frame (kfs1 ! (length kfs1 - 1)) \<noteq> end0
                                   then kfs1 @ [\<lparr>frame = end0, kvalue = kvalue (kfs1 ! 0),
                                                 inTan = outTan (kfs1 ! 0), outTan = inTan (kfs1 ! 0)\<rparr>]
                                   else kfs1)
                       in Inr \<lparr>seq_start = start, seq_end = end0, seq_keyframes = kfs2,
                               seq_constant = False, seq_value = None\<rparr>))))"

text \<open>
  The keyframes that the constructor keeps before it looks at their number: the first
  one, if the sequence is global and its frame is past the end, then those in the range.
\<close>

definition retained_keyframes ::
    "int \<Rightarrow> int \<Rightarrow> 'a MdxParserTrack list \<Rightarrow> bool \<Rightarrow> 'a MdxParserTrack list" where
  "retained_keyframes start end0 keyframes g =
     (if g \<and> frame (hd keyframes) > end0 then [hd keyframes] else [])
       @ filter (\<lambda>k. start \<le> frame k \<and> frame k \<le> end0) keyframes"

section \<open>Sample values\<close>

text \<open>An eight-byte buffer at address 0 and the stream \<open>new BinaryStream(buffer)\<close> over it.\<close>

definition h8 :: heap where
  "h8 = [[0, 0, 1, 0, 5, 0, 0, 0]]"

definition s8 :: BinaryStream where
  "s8 = \<lparr>buffer = 0, uint8array = \<lparr>view_buffer = 0, view_byteOffset = 0, view_length = 8\<rparr>,
          index = 0, byteLength = 8\<rparr>"

text \<open>A three-byte buffer holding \<open>A\<close>, a zero byte and \<open>B\<close>, and the stream over it.\<close>

definition h3 :: heap where
  "h3 = [[65, 0, 66]]"

definition s3 :: BinaryStream where
  "s3 = \<lparr>buffer = 0, uint8array = \<lparr>view_buffer = 0, view_byteOffset = 0, view_length = 3\<rparr>,
          index = 0, byteLength = 3\<rparr>"

text \<open>The text of the example in the doc comment of \<open>read()\<close>.\<close>

definition example_text :: string where
  "example_text = ''Header '' @ [CHR 0x22] @ ''A String'' @ [CHR 0x22] @ '' {'' @ [CHR 0x0A, CHR 0x09]
       @ ''Name Value, // A Comment'' @ [CHR 0x0A] @ ''}''"

text \<open>A stand-in for numbers in the colour example: a number is kept as its text.\<close>

definition text_number :: "string option \<Rightarrow> string" where
  "text_number t = (case t of None \<Rightarrow> ''NaN'' | Some x \<Rightarrow> x)"

text \<open>
  A texture block and two camera blocks with a key that no loader knows: \<open>Foo\<close> after the
  path of the texture, \<open>Bar\<close> in the Target block of the first camera, \<open>Baz\<close> after the
  Target block of the second. With them, the streams over them at the index where the
  loader stands when that key is the next token, and for the first camera also where
  Target is. No animation is read in them; the stand-in for \<open>readAnimation\<close> reads
  nothing. \<open>camera_new\<close> is the camera that the constructor makes, \<open>camera_Cam01\<close> the camera
  after the name and the field of view were read.
\<close>

definition texture_text :: string where
  "texture_text = ''{ Image '' @ [CHR 0x22] @ ''a.blp'' @ [CHR 0x22] @ '', Foo 1, }''"

definition texture_at_Foo :: TokenStream where
  "texture_at_Foo = \<lparr>buffer_ts = texture_text, index_ts = 15, ident = 0\<rparr>"

definition camera_text :: string where
  "camera_text = [CHR 0x22] @ ''Cam01'' @ [CHR 0x22] @ '' { FieldOfView 0.5, Target { Bar 1 } Baz 2 }''"

definition camera_at_Target :: TokenStream where
  "camera_at_Target = \<lparr>buffer_ts = camera_text, index_ts = 26, ident = 0\<rparr>"

definition camera_at_Bar :: TokenStream where
  "camera_at_Bar = \<lparr>buffer_ts = camera_text, index_ts = 35, ident = 0\<rparr>"

definition camera_text_Baz :: string where
  "camera_text_Baz = [CHR 0x22] @ ''Cam01'' @ [CHR 0x22] @ '' { FieldOfView 0.5, Target { } Baz 2 }''"

definition camera_at_Baz :: TokenStream where
  "camera_at_Baz = \<lparr>buffer_ts = camera_text_Baz, index_ts = 37, ident = 0\<rparr>"

definition camera_new :: "(string, unit) Camera" where
  "camera_new = \<lparr>name = Some [], position = [''0'', ''0'', ''0''], fieldOfView = ''0'',
      farClippingPlane = ''0'', nearClippingPlane = ''0'', targetPosition = [''0'', ''0'', ''0''],
      animations = ()\<rparr>"

definition camera_Cam01 :: "(string, unit) Camera" where
  "camera_Cam01 = \<lparr>name = Some ''Cam01'', position = [''0'', ''0'', ''0''], fieldOfView = ''0.5'',
      farClippingPlane = ''0'', nearClippingPlane = ''0'', targetPosition = [''0'', ''0'', ''0''],
      animations = ()\<rparr>"

definition no_animation :: "string \<Rightarrow> TokenStream \<Rightarrow> unit \<Rightarrow> error + unit \<times> TokenStream" where
  "no_animation nm ts a = Inr (a, ts)"

text \<open>A keyframe at frame 100, with integers for numbers.\<close>

definition track_a :: "int MdxParserTrack" where
  "track_a = \<lparr>frame = 100, kvalue = Scalar 7, inTan = Scalar 0, outTan = Scalar 0\<rparr>"

text \<open>
  Stand-ins for the sub-records, for the examples. A trigger is 32 bits, saved as four
  bytes. A player, a force and a table are the bytes that they save; an upgrade change
  saves 16 zero bytes and a tech change 8.
\<close>

definition trigger_enc :: "32 word \<Rightarrow> byte list" where
  "trigger_enc t = bits32_uint8 t"

definition trigger_dec :: "byte list \<Rightarrow> 32 word \<times> nat" where
  "trigger_dec bs = (case bs of a # b # c # d # rest \<Rightarrow> (uint8_bits32 a b c d, 4) | _ \<Rightarrow> (0, 0))"

definition trigger_len :: "32 word \<Rightarrow> nat" where
  "trigger_len t = 4"



definition sample_wct :: "32 word War3MapWct" where
  "sample_wct = \<lparr>wct_version = 1, wct_comment = code_units ''hi'', wct_trigger = Some 7,
      wct_triggers = [8, 9]\<rparr>"

text \<open>A trigger file of version 0 whose comment is not empty.\<close>

definition wct_v0 :: "32 word War3MapWct" where
  "wct_v0 = \<lparr>wct_version = 0, wct_comment = code_units ''a'', wct_trigger = None, wct_triggers = []\<rparr>"

text \<open>
  A trigger file of version 1 whose comment is the one code unit 0x100, and a texture
  whose path is the one code unit 0x141: neither is a null character, and neither fits a
  byte. A texture whose \<open>replaceableId\<close> is -1.
\<close>

definition wct_wide :: "32 word War3MapWct" where
  "wct_wide = \<lparr>wct_version = 1, wct_comment = [0x100], wct_trigger = Some 7, wct_triggers = []\<rparr>"

definition texture_wide :: Texture where
  "texture_wide = \<lparr>replaceableId = 0, path = Some [0x141], flags = 0\<rparr>"

definition texture_minus :: Texture where
  "texture_minus = \<lparr>replaceableId = - 1, path = Some (code_units ''a.blp''), flags = 0\<rparr>"

definition sample_texture :: Texture where
  "sample_texture = \<lparr>replaceableId = 1, path = Some (code_units ''a.blp''), flags = 3\<rparr>"

section \<open>Properties of the binary stream\<close>

lemma BinaryStream_new_h8: "BinaryStream_new h8 (ArrayBufferRef 0) None None = Inr s8"
  by (simp add: BinaryStream_new_def new_Uint8Array_def h8_def s8_def)

lemma BinaryStream_new_h3: "BinaryStream_new h3 (ArrayBufferRef 0) None None = Inr s3"
  by (simp add: BinaryStream_new_def new_Uint8Array_def h3_def s3_def)

lemma upt_nat_step: "0 \<le> i \<Longrightarrow> i < sz \<Longrightarrow> [nat i..<nat sz] = nat i # [nat (i + 1)..<nat sz]"
proof -
  assume a: "0 \<le> i" "i < sz"
  then have "nat i < nat sz" by linarith
  then have "[nat i..<nat sz] = nat i # [Suc (nat i)..<nat sz]" by (rule upt_conv_Cons)
  moreover have "Suc (nat i) = nat (i + 1)" using a by linarith
  ultimately show ?thesis by simp
qed

lemma peek_loop_eq:
  "0 \<le> i \<Longrightarrow> peek_loop h s sz a i data =
     data @ map fromCharCode (filter (\<lambda>b. a \<or> (case b of None \<Rightarrow> False | Some x \<Rightarrow> x > 0))
        (map (\<lambda>k. u8_get h (uint8array s) (index s + int k)) [nat i..<nat sz]))"
proof (induction h s sz a i data rule: peek_loop.induct)
  case (1 h s sz a i data)
  show ?case
  proof (cases "i < sz")
    case True
    have p: "0 \<le> i + 1" using 1(2) by simp
    note ih = 1(1)[OF True refl p]
    have eq: "int (nat i) = i" using 1(2) by simp
    show ?thesis
      apply (subst peek_loop.simps)
      apply (simp only: True if_True Let_def ih upt_nat_step[OF 1(2) True])
      apply (simp add: eq 1(2) del: upt_Suc)
      done
  next
    case False
    then show ?thesis by (subst peek_loop.simps) simp
  qed
qed

text \<open>
  C3 (substream). The claim: \<open>s.substream(n)\<close> is a new stream over the same backing
  buffer, starting at the parent's index, whose byte length is \<open>n\<close>, so that its
  \<open>remaining()\<close> is \<open>n\<close> at first. On the eight-byte buffer, with the parent at index 2,
  \<open>substream(3)\<close> does share the buffer and its view is the window of 3 bytes at offset 2,
  but the constructor sets \<open>byteLength\<close> from the whole buffer: \<open>remaining()\<close> is 8, not 3.
\<close>

theorem substream_remaining_is_buffer_length:
  "substream h8 (seek 2 s8) 3 =
     Inr \<lparr>buffer = 0, uint8array = \<lparr>view_buffer = 0, view_byteOffset = 2, view_length = 3\<rparr>,
          index = 0, byteLength = 8\<rparr>
   \<and> (case substream h8 (seek 2 s8) 3 of Inl e \<Rightarrow> False | Inr sub \<Rightarrow> remaining sub = 8)"
  by (simp add: substream_def seek_def BinaryStream_new_def new_Uint8Array_def h8_def s8_def remaining_def)

text \<open>
  \<open>substream(n)\<close> in general, where the window fits the buffer: the same buffer, a view of
  \<open>n\<close> bytes at the parent's index, index 0, and the length of the whole buffer as
  \<open>byteLength\<close>. The parent is not changed: \<open>substream\<close> only reads it.
\<close>

lemma substream_in_range:
  assumes "buffer s < length h" "0 \<le> index s" "0 \<le> n" "index s + n \<le> int (length (h ! buffer s))"
  shows "substream h s n =
           Inr \<lparr>buffer = buffer s,
                uint8array = \<lparr>view_buffer = buffer s, view_byteOffset = nat (index s), view_length = nat n\<rparr>,
                index = 0, byteLength = length (h ! buffer s)\<rparr>"
  using assms by (simp add: substream_def BinaryStream_new_def new_Uint8Array_def)

text \<open>
  C4 (read), as the claim states it: for every size not exceeding \<open>remaining()\<close>, size 0
  included, \<open>read(size)\<close> advances the index by exactly \<open>size\<close>. On the three-byte buffer
  \<open>read(0)\<close> moves the index from 0 to 3: a size of 0 is replaced by \<open>remaining()\<close>.
\<close>

theorem read_size_zero_counterexample:
  "0 \<le> remaining s3 \<and> index (snd (read h3 s3 0 False)) \<noteq> index s3 + 0"
  by (simp add: read_def remaining_def s3_def Let_def)

text \<open>
  C4 (read), amended: for every stream and every size other than 0, \<open>read(size, allowNulls)\<close>
  advances the index by exactly \<open>size\<close>, however many bytes it leaves out of the string,
  and the string is made of the character codes of the view's elements at the old index,
  \<open>index\<close> to \<open>index + size - 1\<close>, in order, where an element that is 0 (or lies outside
  the view) is left out unless \<open>allowNulls\<close> is set.
\<close>

theorem read_advances_by_size:
  "size0 \<noteq> 0 \<Longrightarrow>
     index (snd (read h s size0 allowNulls)) = index s + size0 \<and>
     fst (read h s size0 allowNulls) =
       map fromCharCode
         (filter (\<lambda>b. allowNulls \<or> (case b of None \<Rightarrow> False | Some x \<Rightarrow> x > 0))
           (map (\<lambda>k. u8_get h (uint8array s) (index s + int k)) [0..<nat size0]))"
  by (simp add: read_def Let_def peek_def peek_loop_eq)

theorem read_advances_by_size_witness:
  "index (snd (read h3 s3 3 False)) = index s3 + 3 \<and> fst (read h3 s3 3 False) = code_units ''AB''"
proof -
  have a: "(3::int) \<noteq> 0" by simp
  have "index (snd (read h3 s3 3 False)) = index s3 + 3"
    using read_advances_by_size[OF a] by (rule conjunct1)
  moreover have "fst (read h3 s3 3 False) = code_units ''AB''"
    by code_simp
  ultimately show ?thesis by (rule conjI)
qed

lemma readInt32Array_index:
  "index (snd (readInt32Array h s (Length n))) = index s + 4 * int n"
  by (simp add: readInt32Array_def to_view_def Let_def)

text \<open>
  C8 (readInt32Array). The claim: the i-th element of \<open>readInt32Array(n)\<close> is the 32-bit
  little-endian integer of the four bytes at \<open>index + 4 * i\<close>, the value \<open>readInt32\<close>
  returns there. On the bytes 00 00 01 00 \<open>readInt32\<close> returns 65536 and
  \<open>readInt32Array(1)\<close> returns the array [0]: the loop casts with \<open>uint8ToInt16\<close>, which
  takes two bytes only. The index does advance by 4.
\<close>

theorem readInt32Array_reads_16_bits:
  "fst (readInt32 h8 s8) = 65536
   \<and> fst (readInt32Array h8 s8 (Length 1)) = [0]
   \<and> index (snd (readInt32Array h8 s8 (Length 1))) = index s8 + 4"
  by (simp add: readInt32Array_def to_view_def readInt32Array_loop.simps readInt32_def h8_def s8_def
      u8_get_def to_uint8_def uint8ToInt16_def uint8ToInt32_def uint8_bits32_def Let_def)

section \<open>Properties of the token stream\<close>

text \<open>
  C5 (what \<open>read()\<close> returns). The claim: \<open>read()\<close> returns the next token, a single brace or
  end-of-input, and in particular a token whose characters run to the very end of the
  input, with no delimiter after it, is still returned as that token. On the input
  \<open>Name Value\<close> the first call returns \<open>Name\<close>; the second falls out of the loop with
  \<open>Value\<close> pending and returns \<open>undefined\<close>, leaving the index at the end of the input.
\<close>

theorem read_drops_token_at_end_of_input:
  "reads 2 (TokenStream_new (Some ''Name Value'')) = [Some ''Name'', None]
   \<and> read_ts (TokenStream_new (Some ''abc'')) = (None, \<lparr>buffer_ts = ''abc'', index_ts = 3, ident = 0\<rparr>)"
  by code_simp

text \<open>
  C6 (the example of the doc comment). On the text \<open>Header "A String" {\<close>, newline, tab,
  \<open>Name Value, // A Comment\<close>, newline, \<open>}\<close>, seven calls of \<open>read()\<close> on a fresh stream
  return \<open>Header\<close>, \<open>A String\<close>, \<open>{\<close>, \<open>Name\<close>, \<open>Value\<close>, \<open>}\<close> and then \<open>undefined\<close>: the
  comment, the comma and the white space give no token.
\<close>

theorem read_example_tokens:
  "reads 7 (TokenStream_new (Some example_text)) =
     [Some ''Header'', Some ''A String'', Some ''{'', Some ''Name'', Some ''Value'', Some ''}'', None]"
  by code_simp

text \<open>Reading at an index of a buffer is reading its remainder from 0, up to the index returned.\<close>

lemma read_loop_shift_aux:
  "k = length pre + i \<Longrightarrow> read_loop (pre @ suf) k ic is tok =
     (case read_loop suf i ic is tok of (r, j) \<Rightarrow> (r, length pre + j))"
proof (induction suf i ic "is" tok arbitrary: k rule: read_loop.induct)
  case (1 buf i inComment inString token)
  show ?case
  proof (cases "i < length buf")
    case False
    then show ?thesis using 1(8)
      by (subst read_loop.simps, subst (2) read_loop.simps) simp
  next
    case True
    have nth: "(pre @ buf) ! k = buf ! i" using 1(8) by simp
    have nth1: "(pre @ buf) ! (k + 1) = buf ! (i + 1)"
      using 1(8) by (simp add: nth_append)
    have lt: "k < length (pre @ buf)" using True 1(8) by simp
    have lt1: "k + 1 < length (pre @ buf) \<longleftrightarrow> i + 1 < length buf" using 1(8) by simp
    have k1: "k + 1 = length pre + (i + 1)" using 1(8) by simp
    have km: "k + 1 - 1 = length pre + (i + 1 - 1)" using 1(8) by simp
    note ih = 1(1-7)[OF True refl refl, where k = "k + 1"]
    have L: "read_loop (pre @ buf) k inComment inString token = 
         (if inComment then
           (if buf ! i = CHR 0x0A then read_loop (pre @ buf) (k + 1) False inString token
            else read_loop (pre @ buf) (k + 1) inComment inString token)
         else if inString then
           (if buf ! i = CHR 0x22 then (Some token, k + 1)
            else read_loop (pre @ buf) (k + 1) inComment inString (token @ [buf ! i]))
         else if is_separator (buf ! i) then
           (if token \<noteq> [] then (Some token, k + 1)
            else read_loop (pre @ buf) (k + 1) inComment inString token)
         else if buf ! i = CHR ''{'' \<or> buf ! i = CHR ''}'' then
           (if token \<noteq> [] then (Some token, k + 1 - 1)
            else (Some [buf ! i], k + 1))
         else if buf ! i = CHR ''/'' \<and> i + 1 < length buf \<and> buf ! (i + 1) = CHR ''/'' then
           (if token \<noteq> [] then (Some token, k + 1 - 1)
            else read_loop (pre @ buf) (k + 1) True inString token)
         else if buf ! i = CHR 0x22 then
           (if token \<noteq> [] then (Some token, k + 1 - 1)
            else read_loop (pre @ buf) (k + 1) inComment True token)
         else read_loop (pre @ buf) (k + 1) inComment inString (token @ [buf ! i]))"
      apply (subst read_loop.simps)
      apply (simp only: lt True if_True Let_def nth nth1 lt1)
      done
    have R: "read_loop buf i inComment inString token = 
         (if inComment then
           (if buf ! i = CHR 0x0A then read_loop buf (i + 1) False inString token
            else read_loop buf (i + 1) inComment inString token)
         else if inString then
           (if buf ! i = CHR 0x22 then (Some token, i + 1)
            else read_loop buf (i + 1) inComment inString (token @ [buf ! i]))
         else if is_separator (buf ! i) then
           (if token \<noteq> [] then (Some token, i + 1)
            else read_loop buf (i + 1) inComment inString token)
         else if buf ! i = CHR ''{'' \<or> buf ! i = CHR ''}'' then
           (if token \<noteq> [] then (Some token, i + 1 - 1)
            else (Some [buf ! i], i + 1))
         else if buf ! i = CHR ''/'' \<and> i + 1 < length buf \<and> buf ! (i + 1) = CHR ''/'' then
           (if token \<noteq> [] then (Some token, i + 1 - 1)
            else read_loop buf (i + 1) True inString token)
         else if buf ! i = CHR 0x22 then
           (if token \<noteq> [] then (Some token, i + 1 - 1)
            else read_loop buf (i + 1) inComment True token)
         else read_loop buf (i + 1) inComment inString (token @ [buf ! i]))"
      apply (subst read_loop.simps)
      apply (simp only: True if_True Let_def)
      done
    show ?thesis
      unfolding L R
      apply (cases inComment; cases inString; cases "token = []"; cases "buf ! i = CHR 0x0A";
             cases "buf ! i = CHR 0x22"; cases "is_separator (buf ! i)";
             cases "buf ! i = CHR ''{'' \<or> buf ! i = CHR ''}''";
             cases "buf ! i = CHR ''/'' \<and> i + 1 < length buf \<and> buf ! (i + 1) = CHR ''/''")
      using ih k1 1(8) apply simp_all
       apply blast
      apply blast
      done
  qed
qed

lemma read_loop_shift:
  "read_loop (pre @ suf) (length pre) ic is tok =
     (case read_loop suf 0 ic is tok of (r, j) \<Rightarrow> (r, length pre + j))"
  by (rule read_loop_shift_aux) simp

lemma read_loop_Cons:
  "read_loop (c # cs) 0 ic is tok =
     (let shift = (\<lambda>(r, j). (r, Suc j)) in
      if ic then
        (if c = CHR 0x0A then shift (read_loop cs 0 False is tok)
         else shift (read_loop cs 0 ic is tok))
      else if is then
        (if c = CHR 0x22 then (Some tok, 1)
         else shift (read_loop cs 0 ic is (tok @ [c])))
      else if is_separator c then
        (if tok \<noteq> [] then (Some tok, 1)
         else shift (read_loop cs 0 ic is tok))
      else if c = CHR ''{'' \<or> c = CHR ''}'' then
        (if tok \<noteq> [] then (Some tok, 0)
         else (Some [c], 1))
      else if c = CHR ''/'' \<and> cs \<noteq> [] \<and> hd cs = CHR ''/'' then
        (if tok \<noteq> [] then (Some tok, 0)
         else shift (read_loop cs 0 True is tok))
      else if c = CHR 0x22 then
        (if tok \<noteq> [] then (Some tok, 0)
         else shift (read_loop cs 0 ic True tok))
      else shift (read_loop cs 0 ic is (tok @ [c])))"
proof -
  have s: "read_loop (c # cs) (0 + 1) a b t = (case read_loop cs 0 a b t of (r, j) \<Rightarrow> (r, Suc j))" for a b t
    using read_loop_shift[of "[c]" cs a b t] by simp
  have hd: "cs \<noteq> [] \<Longrightarrow> cs ! 0 = hd cs" by (simp add: hd_conv_nth)
  show ?thesis
    apply (subst read_loop.simps)
    apply (simp only: s Let_def)
    apply (cases cs)
     apply (simp_all add: hd)
    done
qed

lemma skip_separators:
  "list_all is_separator seps \<Longrightarrow>
   read_loop (seps @ rest) 0 False False [] =
     (case read_loop rest 0 False False [] of (r, j) \<Rightarrow> (r, length seps + j))"
proof (induction seps)
  case Nil
  show ?case by (simp split: prod.split)
next
  case (Cons d seps)
  then show ?case
    by (simp add: read_loop_Cons split: prod.split)
qed

lemma accumulate_plain:
  "list_all plain_char t \<Longrightarrow>
   read_loop (t @ rest) 0 False False acc =
     (case read_loop rest 0 False False (acc @ t) of (r, j) \<Rightarrow> (r, length t + j))"
proof (induction t arbitrary: acc)
  case Nil
  show ?case by (simp split: prod.split)
next
  case (Cons x t)
  then show ?case
    by (simp add: read_loop_Cons plain_char_def split: prod.split)
qed

lemma token_then_separator:
  assumes "list_all is_separator seps" "plain_token t" "is_separator d"
  shows "read_loop (seps @ t @ d # rest) 0 False False [] = (Some t, length seps + length t + 1)"
proof -
  have "read_loop (d # rest) 0 False False t = (Some t, 1)"
    using assms(2,3) by (simp add: read_loop_Cons plain_token_def)
  then have "read_loop (t @ d # rest) 0 False False [] = (Some t, length t + 1)"
    using assms(2) accumulate_plain[of t "d # rest" "[]"] by (simp add: plain_token_def)
  then show ?thesis
    using skip_separators[OF assms(1), of "t @ d # rest"] by simp
qed

lemma brace_after_separators:
  assumes "list_all is_separator seps" "b = CHR ''{'' \<or> b = CHR ''}''"
  shows "read_loop (seps @ b # rest) 0 False False [] = (Some [b], length seps + 1)"
proof -
  have "\<not> is_separator b" using assms(2) by (auto simp: is_separator_def)
  then have "read_loop (b # rest) 0 False False [] = (Some [b], 1)"
    using assms(2) by (simp add: read_loop_Cons)
  then show ?thesis
    using skip_separators[OF assms(1), of "b # rest"] by simp
qed

lemma read_ts_at:
  assumes "buffer_ts ts = pre @ suf" "index_ts ts = length pre"
    and "read_loop suf 0 False False [] = (r, j)"
  shows "read_ts ts = (r, ts\<lparr>index_ts := length pre + j\<rparr>)"
  using assms read_loop_shift[of pre suf False False "[]"]
  by (simp add: read_ts_def)

lemma read_ts_token:
  assumes "buffer_ts ts = pre @ seps @ t @ d # rest" "index_ts ts = length pre"
    and "list_all is_separator seps" "plain_token t" "is_separator d"
  shows "read_ts ts = (Some t, ts\<lparr>index_ts := length pre + (length seps + length t + 1)\<rparr>)"
  by (rule read_ts_at[OF assms(1,2) token_then_separator[OF assms(3-5)]])

lemma read_ts_brace:
  assumes "buffer_ts ts = pre @ seps @ b # rest" "index_ts ts = length pre"
    and "list_all is_separator seps" "b = CHR ''{'' \<or> b = CHR ''}''"
  shows "read_ts ts = (Some [b], ts\<lparr>index_ts := length pre + (length seps + 1)\<rparr>)"
  by (rule read_ts_at[OF assms(1,2) brace_after_separators[OF assms(3,4)]])

lemma readColor_block:
  assumes buf: "buffer_ts ts = pre @ ''{ '' @ a @ '', '' @ b @ '', '' @ c @ '' }'' @ post"
    and idx: "index_ts ts = length pre"
    and pl: "plain_token a" "plain_token b" "plain_token c"
  shows "fst (readColor parseFloat view ts) =
           view[2 := parseFloat (Some a), 1 := parseFloat (Some b), 0 := parseFloat (Some c)]"
proof -
  have sp: "is_separator CHR '' ''" "is_separator CHR '',''" "list_all is_separator '' ''" "list_all is_separator []"
    by (simp_all add: is_separator_def)
  define p1 where "p1 = pre @ ''{''"
  define p2 where "p2 = p1 @ '' '' @ a @ '',''"
  define p3 where "p3 = p2 @ '' '' @ b @ '',''"
  define p4 where "p4 = p3 @ '' '' @ c @ '' ''"
  define t1 where "t1 = ts\<lparr>index_ts := length p1\<rparr>"
  define t2 where "t2 = ts\<lparr>index_ts := length p2\<rparr>"
  define t3 where "t3 = ts\<lparr>index_ts := length p3\<rparr>"
  define t4 where "t4 = ts\<lparr>index_ts := length p4\<rparr>"
  have r0: "read_ts ts = (Some ''{'', t1)"
    using read_ts_brace[of ts pre "[]" "CHR ''{''" "'' '' @ a @ '', '' @ b @ '', '' @ c @ '' }'' @ post"] buf idx
    by (simp add: t1_def p1_def)
  have r1: "read_ts t1 = (Some a, t2)"
    using read_ts_token[of t1 p1 "'' ''" a "CHR '',''" "'' '' @ b @ '', '' @ c @ '' }'' @ post"] buf sp pl
    by (simp add: t1_def t2_def p1_def p2_def)
  have r2: "read_ts t2 = (Some b, t3)"
    using read_ts_token[of t2 p2 "'' ''" b "CHR '',''" "'' '' @ c @ '' }'' @ post"] buf sp pl
    by (simp add: t2_def t3_def p1_def p2_def p3_def)
  have r3: "read_ts t3 = (Some c, t4)"
    using read_ts_token[of t3 p3 "'' ''" c "CHR '' ''" "''}'' @ post"] buf sp pl
    by (simp add: t3_def t4_def p1_def p2_def p3_def p4_def)
  show ?thesis
    by (simp add: readColor_def readFloat_def r0 r1 r2 r3 split: prod.split)
qed

text \<open>
  C7 (colour swizzle symmetry). A colour \<open>c\<close> of three numbers is written with
  \<open>writeColor(name, c)\<close> at any indentation; a fresh stream over the written text reads the
  name, and \<open>readColor\<close> then stores \<open>c\<close> again, element for element, in any view of three
  slots. The write path prints elements 2, 1, 0 and the read path stores the three numbers
  into slots 2, 1, 0. The text of a number and \<open>parseFloat\<close> are the language's: the
  theorem asks of them that the text of each element of \<open>c\<close> is a plain token that
  \<open>parseFloat\<close> maps back to the element, and of the name that it is a plain token.
\<close>

theorem writeColor_readColor_roundtrip:
  assumes len: "length c = 3" "length view = 3"
    and k: "0 \<le> k"
    and name: "plain_token nm"
    and num: "\<forall>x\<in>set c. plain_token (toStr x) \<and> parseFloat (Some (toStr x)) = x"
  shows "\<exists>w. writeColor toStr nm c ((TokenStream_new None)\<lparr>ident := k\<rparr>) = Inr w \<and>
           (case read_ts (TokenStream_new (Some (buffer_ts w))) of
              (tok, r) \<Rightarrow> tok = Some nm \<and> fst (readColor parseFloat view r) = c)"
proof -
  obtain x0 x1 x2 where c: "c = [x0, x1, x2]"
    using len(1) by (auto simp: length_Suc_conv numeral_3_eq_3)
  obtain v0 v1 v2 where v: "view = [v0, v1, v2]"
    using len(2) by (auto simp: length_Suc_conv numeral_3_eq_3)
  define tabs where "tabs = replicate (nat k) (CHR 0x09)"
  define block where "block = ''{ '' @ toStr x2 @ '', '' @ toStr x1 @ '', '' @ toStr x0 @ '' }'' @ [CHR '','', CHR 0x0A]"
  define B where "B = tabs @ nm @ CHR '' '' # block"
  define w where "w = \<lparr>buffer_ts = B, index_ts = 0, ident = k\<rparr>"
  have pl: "plain_token (toStr x0)" "plain_token (toStr x1)" "plain_token (toStr x2)"
    and pf: "parseFloat (Some (toStr x0)) = x0" "parseFloat (Some (toStr x1)) = x1"
            "parseFloat (Some (toStr x2)) = x2"
    using num by (simp_all add: c)
  have wr: "writeColor toStr nm c ((TokenStream_new None)\<lparr>ident := k\<rparr>) = Inr w"
    using k by (simp add: writeColor_def writeLine_def TokenStream_new_def template_elem_def c
        w_def B_def block_def tabs_def)
  have tabs: "list_all is_separator tabs"
    by (simp add: tabs_def list_all_iff is_separator_def)
  define r0 where "r0 = TokenStream_new (Some (buffer_ts w))"
  define r1 where "r1 = r0\<lparr>index_ts := length (tabs @ nm @ '' '')\<rparr>"
  have rd: "read_ts r0 = (Some nm, r1)"
    using read_ts_token[of r0 "[]" tabs nm "CHR '' ''" block] tabs name
    by (simp add: r0_def r1_def TokenStream_new_def w_def B_def is_separator_def)
  have "fst (readColor parseFloat view r1) =
          view[2 := parseFloat (Some (toStr x2)), 1 := parseFloat (Some (toStr x1)),
               0 := parseFloat (Some (toStr x0))]"
    by (rule readColor_block[where pre = "tabs @ nm @ '' ''" and post = "[CHR '','', CHR 0x0A]"])
       (simp_all add: r1_def r0_def TokenStream_new_def w_def B_def block_def pl)
  then have "fst (readColor parseFloat view r1) = c"
    by (simp add: pf c v)
  then show ?thesis
    using wr rd by (simp add: r0_def)
qed

theorem writeColor_readColor_roundtrip_witness:
  "\<exists>w. writeColor id ''Color'' [''0.5'', ''1'', ''0.25''] ((TokenStream_new None)\<lparr>ident := 1\<rparr>) = Inr w \<and>
           (case read_ts (TokenStream_new (Some (buffer_ts w))) of
              (tok, r) \<Rightarrow> tok = Some ''Color'' \<and>
                 fst (readColor text_number [''0'', ''0'', ''0''] r) = [''0.5'', ''1'', ''0.25''])"
  using writeColor_readColor_roundtrip[of "[''0.5'', ''1'', ''0.25'']" "[''0'', ''0'', ''0'']" 1 "''Color''" id text_number]
  by (simp add: plain_token_def plain_char_def is_separator_def text_number_def)

section \<open>Properties of the text loaders\<close>

text \<open>
  The loop goes on from the state it has reached, and a body that throws ends it. No
  entry of a camera block changes the name of the camera.
\<close>

lemma readBlock_loop_after:
  "readBlock_after body n ts x = Some (x', ts') \<Longrightarrow>
     readBlock_loop body ts x = readBlock_loop body ts' x'"
proof (induction n arbitrary: ts x)
  case 0
  then show ?case by simp
next
  case (Suc n)
  obtain token ts1 where r: "read_ts ts = (token, ts1)" by (cases "read_ts ts")
  from Suc.prems r have nb: "token \<noteq> Some ''}''"
    by (auto split: if_splits)
  from Suc.prems r nb obtain x2 ts2 where b: "body token ts1 x = Some (Inr (x2, ts2))"
      and a: "readBlock_after body n ts2 x2 = Some (x', ts')"
    by (auto split: option.splits sum.splits)
  have "readBlock_loop body ts x = readBlock_loop body ts2 x2"
    by (subst readBlock_loop.simps) (simp add: r nb b)
  then show ?case using Suc.IH[OF a] by simp
qed

lemma readBlock_loop_unknown:
  assumes "fst (read_ts ts) = token" "token \<noteq> Some ''}''" "body token (snd (read_ts ts)) x = Some (Inl e)"
  shows "readBlock_loop body ts x = Some (Inl e)"
  using assms by (subst readBlock_loop.simps) (simp add: case_prod_unfold)

lemma target_body_name:
  "Camera_readMdl_target_body parseFloat readAnimation token ts cam = Some (Inr (cam', ts'))
     \<Longrightarrow> name cam' = name cam"
  by (auto simp: Camera_readMdl_target_body_def split: if_splits prod.splits sum.splits)

lemma readBlock_loop_name:
  assumes body: "\<And>token ts x x' ts'. body token ts x = Some (Inr (x', ts')) \<Longrightarrow> name x' = name x"
  shows "readBlock_loop body ts x = Some (Inr (x', ts')) \<Longrightarrow> name x' = name x"
proof -
  have "(case ((body, ts), x) of (p, x) \<Rightarrow> (case p of (b, ts) \<Rightarrow>
           (\<lambda>x y. b = body \<longrightarrow> (\<forall>x' ts'. y = Inr (x', ts') \<longrightarrow> name x' = name x))) x) y"
    if "readBlock_loop body ts x = Some y" for y
  proof (rule readBlock_loop.raw_induct[where xa = "((body, ts), x)" and y = y
        and P = "\<lambda>b ts x y. b = body \<longrightarrow> (\<forall>x' ts'. y = Inr (x', ts') \<longrightarrow> name x' = name x)"])
    show "(case ((body, ts), x) of (x, xa) \<Rightarrow> (case x of (x, xa) \<Rightarrow> readBlock_loop x xa) xa) = Some y"
      using that by simp
  next
    fix f b ts x y
    assume ih: "\<And>b ts x y. f b ts x = Some y \<Longrightarrow>
                  b = body \<longrightarrow> (\<forall>x' ts'. y = Inr (x', ts') \<longrightarrow> name x' = name x)"
      and st: "(case read_ts ts of
      (token, ts1) \<Rightarrow>
        if token \<noteq> Some ''}''
        then Option.bind (b token ts1 x)
              (\<lambda>r. case r of Inl e \<Rightarrow> Some (Inl e)
                   | Inr (x', ts2) \<Rightarrow> f b ts2 x')
        else Some (Inr (x, ts1))) = Some y"
    show "b = body \<longrightarrow> (\<forall>x' ts'. y = Inr (x', ts') \<longrightarrow> name x' = name x)"
    proof (intro impI allI)
      fix x' ts'
      assume bb: "b = body" and y: "y = Inr (x', ts')"
      obtain token ts1 where r: "read_ts ts = (token, ts1)" by (cases "read_ts ts")
      show "name x' = name x"
      proof (cases "token \<noteq> Some ''}''")
        case False
        then show ?thesis using st r y by simp
      next
        case True
        from st r True obtain rr where b1: "b token ts1 x = Some rr"
          and k: "(case rr of Inl e \<Rightarrow> Some (Inl e) | Inr (x', ts2) \<Rightarrow> f b ts2 x') = Some y"
          by (auto simp: bind_eq_Some_conv)
        from k y obtain x2 ts2 where rr: "rr = Inr (x2, ts2)" and f: "f b ts2 x2 = Some y"
          by (cases rr) auto
        have "name x2 = name x" using body[of token ts1 x x2 ts2] b1 rr bb by simp
        moreover have "name x' = name x2" using ih[OF f] bb y by simp
        ultimately show ?thesis by simp
      qed
    qed
  qed
  then show "readBlock_loop body ts x = Some (Inr (x', ts')) \<Longrightarrow> name x' = name x"
    by simp
qed

lemma body_name:
  assumes "Camera_readMdl_body parseFloat readAnimation token ts cam = Some (Inr (cam', ts'))"
  shows "name cam' = name cam"
proof (cases "token = Some ''Target''")
  case True
  then have "readBlock_loop (Camera_readMdl_target_body parseFloat readAnimation) (snd (read_ts ts)) cam
               = Some (Inr (cam', ts'))"
    using assms by (simp add: Camera_readMdl_body_def for_readBlock_def case_prod_unfold)
  then show ?thesis
    by (rule readBlock_loop_name[rotated]) (rule target_body_name)
next
  case False
  then show ?thesis
    using assms
    by (auto simp: Camera_readMdl_body_def split: if_splits prod.splits sum.splits)
qed

lemma readBlock_after_name:
  assumes body: "\<And>token ts x x' ts'. body token ts x = Some (Inr (x', ts')) \<Longrightarrow> name x' = name x"
  shows "readBlock_after body n ts x = Some (x', ts') \<Longrightarrow> name x' = name x"
proof (induction n arbitrary: ts x)
  case 0
  then show ?case by simp
next
  case (Suc n)
  obtain token ts1 where r: "read_ts ts = (token, ts1)" by (cases "read_ts ts")
  from Suc.prems r have nb: "token \<noteq> Some ''}''"
    by (auto split: if_splits)
  from Suc.prems r nb obtain x2 ts2 where b: "body token ts1 x = Some (Inr (x2, ts2))"
      and a: "readBlock_after body n ts2 x2 = Some (x', ts')"
    by (auto split: option.splits sum.splits)
  show ?case using Suc.IH[OF a] body[OF b] by simp
qed

lemma camera_after_name:
  assumes "readBlock_after (Camera_readMdl_body parseFloat readAnimation) n ts x = Some (x', ts')"
  shows "name x' = name x"
  using assms
proof (rule readBlock_after_name[rotated])
  fix token ts x x' ts'
  assume "Camera_readMdl_body parseFloat readAnimation token ts x = Some (Inr (x', ts'))"
  then show "name x' = name x" by (rule body_name)
qed

lemma target_after_name:
  assumes "readBlock_after (Camera_readMdl_target_body parseFloat readAnimation) n ts x = Some (x', ts')"
  shows "name x' = name x"
  using assms
proof (rule readBlock_after_name[rotated])
  fix token ts x x' ts'
  assume "Camera_readMdl_target_body parseFloat readAnimation token ts x = Some (Inr (x', ts'))"
  then show "name x' = name x" by (rule target_body_name)
qed

text \<open>
  C9 (unknown tokens). \<open>Texture.readMdl\<close> on a stream and a texture: when, after any
  number of entries of the block were loaded, the next token is neither the closing brace
  nor one of the keys Image, ReplaceableId, WrapWidth, WrapHeight, the loader throws an
  Error whose message quotes the token. \<open>Camera.readMdl\<close> on a stream and a camera: the
  same in its own block, with the keys Position, Translation, Rotation, FieldOfView,
  FarClip, NearClip, Target, and the message gives the name that the loader read at the
  start; and when the next token of its block is Target, and in the block of Target,
  after any number of entries, the next token is neither the closing brace nor Position
  or Translation, the Error of the Target block, with the name and the token, is what
  \<open>Camera.readMdl\<close> throws. No record is returned. A stream that has ended gives the
  token \<open>undefined\<close>, which is no key either.
\<close>

theorem unknown_token_throws:
  "(readBlock_after (Texture_readMdl_body parseInt) n (snd (read_ts ts)) t = Some (t', ts')
      \<and> fst (read_ts ts') = token
      \<and> token \<notin> {Some ''}'', Some ''Image'', Some ''ReplaceableId'', Some ''WrapWidth'', Some ''WrapHeight''}
      \<longrightarrow> Texture_readMdl parseInt ts t =
            Some (Inl (Error (''Unknown token in Texture: '' @ [CHR 0x22] @ token_text token @ [CHR 0x22]))))
   \<and> (readBlock_after (Camera_readMdl_body parseFloat readAnimation) m (snd (read_ts (snd (read_ts cs))))
          (cam\<lparr>name := fst (read_ts cs)\<rparr>) = Some (cam', cs')
      \<and> fst (read_ts cs') = key
      \<and> key \<notin> {Some ''}'', Some ''Position'', Some ''Translation'', Some ''Rotation'', Some ''FieldOfView'',
                  Some ''FarClip'', Some ''NearClip'', Some ''Target''}
      \<longrightarrow> Camera_readMdl parseFloat readAnimation cs cam =
            Some (Inl (Error (''Unknown token in Camera '' @ token_text (fst (read_ts cs)) @ '': ''
                                @ [CHR 0x22] @ token_text key @ [CHR 0x22]))))
   \<and> (readBlock_after (Camera_readMdl_body parseFloat readAnimation) m (snd (read_ts (snd (read_ts cs))))
          (cam\<lparr>name := fst (read_ts cs)\<rparr>) = Some (cam', cs')
      \<and> fst (read_ts cs') = Some ''Target''
      \<and> readBlock_after (Camera_readMdl_target_body parseFloat readAnimation) k
          (snd (read_ts (snd (read_ts cs')))) cam' = Some (cam'', cs'')
      \<and> fst (read_ts cs'') = key
      \<and> key \<notin> {Some ''}'', Some ''Position'', Some ''Translation''}
      \<longrightarrow> Camera_readMdl parseFloat readAnimation cs cam =
            Some (Inl (Error (''Unknown token in Camera '' @ token_text (fst (read_ts cs)) @ [CHR 0x27]
                                @ ''s Target: '' @ [CHR 0x22] @ token_text key @ [CHR 0x22]))))"
proof (intro conjI impI)
  assume a: "readBlock_after (Texture_readMdl_body parseInt) n (snd (read_ts ts)) t = Some (t', ts')
      \<and> fst (read_ts ts') = token
      \<and> token \<notin> {Some ''}'', Some ''Image'', Some ''ReplaceableId'', Some ''WrapWidth'', Some ''WrapHeight''}"
  have "Texture_readMdl parseInt ts t = readBlock_loop (Texture_readMdl_body parseInt) ts' t'"
    using readBlock_loop_after[OF a[THEN conjunct1]]
    by (simp add: Texture_readMdl_def for_readBlock_def case_prod_unfold)
  also have "\<dots> = Some (Inl (Error (''Unknown token in Texture: '' @ [CHR 0x22] @ token_text token @ [CHR 0x22])))"
    by (rule readBlock_loop_unknown[of _ token]) (use a in \<open>simp_all add: Texture_readMdl_body_def\<close>)
  finally show "Texture_readMdl parseInt ts t =
            Some (Inl (Error (''Unknown token in Texture: '' @ [CHR 0x22] @ token_text token @ [CHR 0x22])))" .
next
  let ?body = "Camera_readMdl_body parseFloat readAnimation"
  let ?cam0 = "cam\<lparr>name := fst (read_ts cs)\<rparr>"
  assume a: "readBlock_after ?body m (snd (read_ts (snd (read_ts cs)))) ?cam0 = Some (cam', cs')
      \<and> fst (read_ts cs') = key
      \<and> key \<notin> {Some ''}'', Some ''Position'', Some ''Translation'', Some ''Rotation'', Some ''FieldOfView'',
                  Some ''FarClip'', Some ''NearClip'', Some ''Target''}"
  have nm: "name cam' = fst (read_ts cs)"
    using camera_after_name[OF a[THEN conjunct1]] by simp
  have "Camera_readMdl parseFloat readAnimation cs cam = readBlock_loop ?body cs' cam'"
    using readBlock_loop_after[OF a[THEN conjunct1]]
    by (simp add: Camera_readMdl_def for_readBlock_def case_prod_unfold)
  also have "\<dots> = Some (Inl (Error (''Unknown token in Camera '' @ token_text (fst (read_ts cs)) @ '': ''
                                @ [CHR 0x22] @ token_text key @ [CHR 0x22])))"
    by (rule readBlock_loop_unknown[of _ key]) (use a nm in \<open>simp_all add: Camera_readMdl_body_def\<close>)
  finally show "Camera_readMdl parseFloat readAnimation cs cam =
            Some (Inl (Error (''Unknown token in Camera '' @ token_text (fst (read_ts cs)) @ '': ''
                                @ [CHR 0x22] @ token_text key @ [CHR 0x22])))" .
next
  let ?body = "Camera_readMdl_body parseFloat readAnimation"
  let ?tbody = "Camera_readMdl_target_body parseFloat readAnimation"
  let ?cam0 = "cam\<lparr>name := fst (read_ts cs)\<rparr>"
  let ?e = "Error (''Unknown token in Camera '' @ token_text (fst (read_ts cs)) @ [CHR 0x27]
                                @ ''s Target: '' @ [CHR 0x22] @ token_text key @ [CHR 0x22])"
  assume a: "readBlock_after ?body m (snd (read_ts (snd (read_ts cs)))) ?cam0 = Some (cam', cs')
      \<and> fst (read_ts cs') = Some ''Target''
      \<and> readBlock_after ?tbody k (snd (read_ts (snd (read_ts cs')))) cam' = Some (cam'', cs'')
      \<and> fst (read_ts cs'') = key
      \<and> key \<notin> {Some ''}'', Some ''Position'', Some ''Translation''}"
  have nm: "name cam' = fst (read_ts cs)"
    using camera_after_name[OF a[THEN conjunct1]] by simp
  have nm2: "name cam'' = name cam'"
    using target_after_name[OF a[THEN conjunct2, THEN conjunct2, THEN conjunct1]] by simp
  have inner: "readBlock_loop ?tbody cs'' cam'' = Some (Inl ?e)"
    by (rule readBlock_loop_unknown[of _ key]) (use a nm nm2 in \<open>simp_all add: Camera_readMdl_target_body_def\<close>)
  have tgt: "?body (Some ''Target'') (snd (read_ts cs')) cam' = Some (Inl ?e)"
    using readBlock_loop_after[OF a[THEN conjunct2, THEN conjunct2, THEN conjunct1]] a inner
    by (simp add: Camera_readMdl_body_def for_readBlock_def case_prod_unfold)
  have "Camera_readMdl parseFloat readAnimation cs cam = readBlock_loop ?body cs' cam'"
    using readBlock_loop_after[OF a[THEN conjunct1]]
    by (simp add: Camera_readMdl_def for_readBlock_def case_prod_unfold)
  also have "\<dots> = Some (Inl ?e)"
    by (rule readBlock_loop_unknown[of _ "Some ''Target''"]) (use a tgt in simp_all)
  finally show "Camera_readMdl parseFloat readAnimation cs cam = Some (Inl ?e)" .
qed

theorem unknown_token_throws_witness:
  "readBlock_after (Texture_readMdl_body (\<lambda>v. 0)) (Suc 0)
       (snd (read_ts (TokenStream_new (Some texture_text)))) Texture_new =
     Some (Texture_new\<lparr>path := Some (code_units ''a.blp'')\<rparr>, texture_at_Foo)
   \<and> fst (read_ts texture_at_Foo) = Some ''Foo''
   \<and> Texture_readMdl (\<lambda>v. 0) (TokenStream_new (Some texture_text)) Texture_new =
       Some (Inl (Error (''Unknown token in Texture: '' @ [CHR 0x22] @ ''Foo'' @ [CHR 0x22])))
   \<and> readBlock_after (Camera_readMdl_body text_number no_animation) (Suc (Suc 0))
       (snd (read_ts (snd (read_ts (TokenStream_new (Some camera_text_Baz))))))
       (camera_new\<lparr>name := Some ''Cam01''\<rparr>) =
     Some (camera_Cam01, camera_at_Baz)
   \<and> fst (read_ts camera_at_Baz) = Some ''Baz''
   \<and> Camera_readMdl text_number no_animation (TokenStream_new (Some camera_text_Baz)) camera_new =
       Some (Inl (Error (''Unknown token in Camera Cam01: '' @ [CHR 0x22] @ ''Baz'' @ [CHR 0x22])))
   \<and> readBlock_after (Camera_readMdl_body text_number no_animation) (Suc 0)
       (snd (read_ts (snd (read_ts (TokenStream_new (Some camera_text))))))
       (camera_new\<lparr>name := Some ''Cam01''\<rparr>) =
     Some (camera_Cam01, camera_at_Target)
   \<and> fst (read_ts camera_at_Target) = Some ''Target''
   \<and> readBlock_after (Camera_readMdl_target_body text_number no_animation) 0
       (snd (read_ts (snd (read_ts camera_at_Target)))) camera_Cam01 =
     Some (camera_Cam01, camera_at_Bar)
   \<and> fst (read_ts camera_at_Bar) = Some ''Bar''
   \<and> Camera_readMdl text_number no_animation (TokenStream_new (Some camera_text)) camera_new =
       Some (Inl (Error (''Unknown token in Camera Cam01'' @ [CHR 0x27] @ ''s Target: ''
                           @ [CHR 0x22] @ ''Bar'' @ [CHR 0x22])))"
proof -
  have nm: "fst (read_ts (TokenStream_new (Some camera_text_Baz))) = Some ''Cam01''"
      "fst (read_ts (TokenStream_new (Some camera_text))) = Some ''Cam01''"
    by code_simp+
  have texture: "readBlock_after (Texture_readMdl_body (\<lambda>v. 0)) (Suc 0)
       (snd (read_ts (TokenStream_new (Some texture_text)))) Texture_new =
     Some (Texture_new\<lparr>path := Some (code_units ''a.blp'')\<rparr>, texture_at_Foo)
   \<and> fst (read_ts texture_at_Foo) = Some ''Foo''"
    by code_simp
  have outer: "readBlock_after (Camera_readMdl_body text_number no_animation) (Suc (Suc 0))
       (snd (read_ts (snd (read_ts (TokenStream_new (Some camera_text_Baz))))))
       (camera_new\<lparr>name := Some ''Cam01''\<rparr>) =
     Some (camera_Cam01, camera_at_Baz)
   \<and> fst (read_ts camera_at_Baz) = Some ''Baz''"
    by code_simp
  have target: "readBlock_after (Camera_readMdl_body text_number no_animation) (Suc 0)
       (snd (read_ts (snd (read_ts (TokenStream_new (Some camera_text))))))
       (camera_new\<lparr>name := Some ''Cam01''\<rparr>) =
     Some (camera_Cam01, camera_at_Target)
   \<and> fst (read_ts camera_at_Target) = Some ''Target''
   \<and> readBlock_after (Camera_readMdl_target_body text_number no_animation) 0
       (snd (read_ts (snd (read_ts camera_at_Target)))) camera_Cam01 =
     Some (camera_Cam01, camera_at_Bar)
   \<and> fst (read_ts camera_at_Bar) = Some ''Bar''"
    by code_simp
  note at_Foo = unknown_token_throws[where parseInt = "\<lambda>v. 0" and n = "Suc 0"
      and ts = "TokenStream_new (Some texture_text)" and t = Texture_new
      and t' = "Texture_new\<lparr>path := Some (code_units ''a.blp'')\<rparr>" and ts' = texture_at_Foo
      and token = "Some ''Foo''", THEN conjunct1]
  note at_Baz = unknown_token_throws[where parseFloat = text_number and readAnimation = no_animation
      and m = "Suc (Suc 0)" and cs = "TokenStream_new (Some camera_text_Baz)" and cam = camera_new
      and cam' = camera_Cam01 and cs' = camera_at_Baz and key = "Some ''Baz''",
      THEN conjunct2, THEN conjunct1]
  note at_Bar = unknown_token_throws[where parseFloat = text_number and readAnimation = no_animation
      and m = "Suc 0" and cs = "TokenStream_new (Some camera_text)" and cam = camera_new
      and cam' = camera_Cam01 and cs' = camera_at_Target and k = 0
      and cam'' = camera_Cam01 and cs'' = camera_at_Bar and key = "Some ''Bar''",
      THEN conjunct2, THEN conjunct2]
  have "Texture_readMdl (\<lambda>v. 0) (TokenStream_new (Some texture_text)) Texture_new =
       Some (Inl (Error (''Unknown token in Texture: '' @ [CHR 0x22] @ ''Foo'' @ [CHR 0x22])))"
    using at_Foo texture by (simp add: token_text_def)
  moreover have "Camera_readMdl text_number no_animation (TokenStream_new (Some camera_text_Baz)) camera_new =
       Some (Inl (Error (''Unknown token in Camera Cam01: '' @ [CHR 0x22] @ ''Baz'' @ [CHR 0x22])))"
    using at_Baz outer by (simp add: token_text_def nm)
  moreover have "Camera_readMdl text_number no_animation (TokenStream_new (Some camera_text)) camera_new =
       Some (Inl (Error (''Unknown token in Camera Cam01'' @ [CHR 0x27] @ ''s Target: ''
                           @ [CHR 0x22] @ ''Bar'' @ [CHR 0x22])))"
    using at_Bar target by (simp add: token_text_def nm)
  ultimately show ?thesis
    using texture outer target by (simp only: simp_thms)
qed

section \<open>Properties of the sequences\<close>

lemma push_in_range_eq:
  "push_in_range start end0 ks kept = kept @ filter (\<lambda>k. start \<le> frame k \<and> frame k \<le> end0) ks"
  by (induction ks arbitrary: kept) auto

lemma MdxSdSequence_new_shape:
  assumes "MdxSdSequence_new sne defval start end0 keyframes g = Inr seq"
  shows "\<not> (g \<and> keyframes = []) \<and>
         (\<exists>pre post. seq_keyframes seq = pre @ retained_keyframes start end0 keyframes g @ post
            \<and> (\<forall>k\<in>set pre. frame k = start) \<and> (\<forall>k\<in>set post. frame k = end0))"
proof -
  let ?kfs = "retained_keyframes start end0 keyframes g"
  have ne: "\<not> (g \<and> keyframes = [])"
    using assms by (auto simp: MdxSdSequence_new_def)
  have kfs: "push_in_range start end0 keyframes
               (if g \<and> frame (hd keyframes) > end0 then [hd keyframes] else []) = ?kfs"
    by (simp add: push_in_range_eq retained_keyframes_def)
  note d = MdxSdSequence_new_def Let_def kfs
  have "\<exists>pre post. seq_keyframes seq = pre @ ?kfs @ post
            \<and> (\<forall>k\<in>set pre. frame k = start) \<and> (\<forall>k\<in>set post. frame k = end0)"
  proof (cases ?kfs)
    case Nil
    then have "seq_keyframes seq = []" using assms ne by (auto simp: d)
    then show ?thesis using Nil by (intro exI[of _ "[]"]) simp
  next
    case (Cons k ks)
    show ?thesis
    proof (cases ks)
      case Nil
      then have "seq_keyframes seq = [k]" using assms ne Cons by (auto simp: d)
      then show ?thesis using Cons Nil by (intro exI[of _ "[]"]) simp
    next
      case (Cons k' others)
      note c = \<open>?kfs = k # ks\<close> Cons
      show ?thesis
      proof (cases "constant_loop sne ?kfs (kvalue k) 1 (length ?kfs) True")
        case True
        then have "seq_keyframes seq = ?kfs" using assms ne c by (auto simp: d)
        then show ?thesis by (intro exI[of _ "[]"]) simp
      next
        case False
        define pre where "pre = (if frame (?kfs ! 0) \<noteq> start
            then [\<lparr>frame = start, kvalue = defval, inTan = defval, outTan = defval\<rparr>] else [])"
        define kfs1 where "kfs1 = pre @ ?kfs"
        define post where "post = (if frame (kfs1 ! (length kfs1 - 1)) \<noteq> end0
            then [\<lparr>frame = end0, kvalue = kvalue (kfs1 ! 0),
                    inTan = outTan (kfs1 ! 0), outTan = inTan (kfs1 ! 0)\<rparr>] else [])"
        have "seq_keyframes seq = pre @ ?kfs @ post"
          using assms ne c False
          by (simp add: d pre_def post_def kfs1_def split: if_splits) auto
        moreover have "\<forall>k\<in>set pre. frame k = start" by (simp add: pre_def)
        moreover have "\<forall>k\<in>set post. frame k = end0" by (simp add: post_def)
        ultimately show ?thesis by blast
      qed
    qed
  qed
  with ne show ?thesis by simp
qed

lemma MdxSdSequence_new_returns:
  assumes "\<not> (g \<and> keyframes = [])"
  shows "\<exists>seq. MdxSdSequence_new sne defval start end0 keyframes g = Inr seq"
proof -
  let ?kfs = "retained_keyframes start end0 keyframes g"
  have kfs: "push_in_range start end0 keyframes
               (if g \<and> frame (hd keyframes) > end0 then [hd keyframes] else []) = ?kfs"
    by (simp add: push_in_range_eq retained_keyframes_def)
  note d = MdxSdSequence_new_def Let_def kfs
  show ?thesis
  proof (cases ?kfs)
    case Nil
    then show ?thesis using assms by (simp add: d)
  next
    case (Cons k ks)
    show ?thesis
    proof (cases ks)
      case Nil
      then show ?thesis using assms Cons by (simp add: d)
    next
      case (Cons k' others)
      note c = \<open>?kfs = k # ks\<close> Cons
      show ?thesis
        using assms c by (cases "constant_loop sne ?kfs (kvalue k) 1 (length ?kfs) True") (simp_all add: d)
    qed
  qed
qed

text \<open>
  C10 (first keyframe of a global sequence outside the range). When the sequence is a global
  one and the frame of the first keyframe is greater than \<open>end\<close>, the constructor
  returns a sequence whose keyframes include that first keyframe, and when no keyframe
  lies in the range it is the only one: the sequence is constant with its value. Only
  that case is treated so: in every sequence the constructor returns, a keyframe whose
  frame is outside \<open>[start, end]\<close> is either that first keyframe of a global sequence or
  a keyframe added at \<open>start\<close> or at \<open>end\<close> to open or close a sequence that is not
  constant.
\<close>

theorem first_keyframe_outside_is_kept:
  "(g \<and> keyframes \<noteq> [] \<and> frame (hd keyframes) > end0 \<longrightarrow>
      (\<exists>seq. MdxSdSequence_new sne defval start end0 keyframes g = Inr seq
         \<and> hd keyframes \<in> set (seq_keyframes seq)
         \<and> (filter (\<lambda>k. start \<le> frame k \<and> frame k \<le> end0) keyframes = [] \<longrightarrow>
               seq_keyframes seq = [hd keyframes] \<and> seq_constant seq
               \<and> seq_value seq = Some (kvalue (hd keyframes)))))
   \<and> (\<forall>seq. MdxSdSequence_new sne defval start end0 keyframes g = Inr seq \<longrightarrow>
         (\<forall>k\<in>set (seq_keyframes seq).
            (start \<le> frame k \<and> frame k \<le> end0) \<or> frame k = start \<or> frame k = end0
            \<or> (g \<and> keyframes \<noteq> [] \<and> k = hd keyframes \<and> frame k > end0)))"
proof (intro conjI impI allI)
  assume a: "g \<and> keyframes \<noteq> [] \<and> frame (hd keyframes) > end0"
  then obtain seq where seq: "MdxSdSequence_new sne defval start end0 keyframes g = Inr seq"
    using MdxSdSequence_new_returns[of g keyframes sne defval start end0] by auto
  have r: "retained_keyframes start end0 keyframes g =
             hd keyframes # filter (\<lambda>k. start \<le> frame k \<and> frame k \<le> end0) keyframes"
    using a by (simp add: retained_keyframes_def)
  from MdxSdSequence_new_shape[OF seq] obtain pre post where
    "seq_keyframes seq = pre @ retained_keyframes start end0 keyframes g @ post" by blast
  then have m: "hd keyframes \<in> set (seq_keyframes seq)" by (simp add: r)
  have "filter (\<lambda>k. start \<le> frame k \<and> frame k \<le> end0) keyframes = [] \<longrightarrow>
          seq_keyframes seq = [hd keyframes] \<and> seq_constant seq
          \<and> seq_value seq = Some (kvalue (hd keyframes))"
  proof
    assume f: "filter (\<lambda>k. start \<le> frame k \<and> frame k \<le> end0) keyframes = []"
    have "MdxSdSequence_new sne defval start end0 keyframes g =
            Inr \<lparr>seq_start = start, seq_end = end0, seq_keyframes = [hd keyframes],
                 seq_constant = True, seq_value = Some (kvalue (hd keyframes))\<rparr>"
      using a f by (simp add: MdxSdSequence_new_def push_in_range_eq Let_def)
    with seq have "seq = \<lparr>seq_start = start, seq_end = end0, seq_keyframes = [hd keyframes],
                 seq_constant = True, seq_value = Some (kvalue (hd keyframes))\<rparr>" by simp
    then show "seq_keyframes seq = [hd keyframes] \<and> seq_constant seq
          \<and> seq_value seq = Some (kvalue (hd keyframes))" by simp
  qed
  with seq m show "\<exists>seq. MdxSdSequence_new sne defval start end0 keyframes g = Inr seq
         \<and> hd keyframes \<in> set (seq_keyframes seq)
         \<and> (filter (\<lambda>k. start \<le> frame k \<and> frame k \<le> end0) keyframes = [] \<longrightarrow>
               seq_keyframes seq = [hd keyframes] \<and> seq_constant seq
               \<and> seq_value seq = Some (kvalue (hd keyframes)))"
    by blast
next
  fix seq
  assume seq: "MdxSdSequence_new sne defval start end0 keyframes g = Inr seq"
  from MdxSdSequence_new_shape[OF seq] obtain pre post where
    ne: "\<not> (g \<and> keyframes = [])" and
    sh: "seq_keyframes seq = pre @ retained_keyframes start end0 keyframes g @ post"
        "\<forall>k\<in>set pre. frame k = start" "\<forall>k\<in>set post. frame k = end0"
    by blast
  show "\<forall>k\<in>set (seq_keyframes seq).
            (start \<le> frame k \<and> frame k \<le> end0) \<or> frame k = start \<or> frame k = end0
            \<or> (g \<and> keyframes \<noteq> [] \<and> k = hd keyframes \<and> frame k > end0)"
  proof
    fix k assume "k \<in> set (seq_keyframes seq)"
    then consider "k \<in> set pre" | "k \<in> set (retained_keyframes start end0 keyframes g)" | "k \<in> set post"
      using sh(1) by auto
    then show "(start \<le> frame k \<and> frame k \<le> end0) \<or> frame k = start \<or> frame k = end0
            \<or> (g \<and> keyframes \<noteq> [] \<and> k = hd keyframes \<and> frame k > end0)"
    proof cases
      case 1 then show ?thesis using sh(2) by blast
    next
      case 2 then show ?thesis using ne by (auto simp: retained_keyframes_def split: if_splits)
    next
      case 3 then show ?thesis using sh(3) by blast
    qed
  qed
qed

theorem first_keyframe_outside_is_kept_witness:
  "MdxSdSequence_new (\<noteq>) (Scalar 1) 0 50 [track_a] True =
      Inr \<lparr>seq_start = 0, seq_end = 50, seq_keyframes = [track_a], seq_constant = True,
           seq_value = Some (Scalar 7)\<rparr>
   \<and> hd [track_a] \<in> set [track_a]
   \<and> frame (hd [track_a]) > 50"
  using first_keyframe_outside_is_kept[of True "[track_a]" 50 "(\<noteq>)" "Scalar 1" 0]
  by (simp add: track_a_def MdxSdSequence_new_def Let_def)

section \<open>Properties of the map files and of the binary texture\<close>

subsection \<open>Where the writes leave the index\<close>

lemma index_write_str [simp]: "index (snd (write_str str st)) = index (snd st) + int (length str)"
  by (cases st) (simp add: write_str_def)

lemma index_writeInt32 [simp]: "index (snd (writeInt32 v st)) = index (snd st) + 4"
  by (cases st) (simp add: writeInt32_def)

lemma index_writeUint32 [simp]: "index (snd (writeUint32 v st)) = index (snd st) + 4"
  by (cases st) (simp add: writeUint32_def)

lemma index_writeFloat32 [simp]: "index (snd (writeFloat32 v st)) = index (snd st) + 4"
  by (cases st) (simp add: writeFloat32_def)

lemma index_writeFloat32Array [simp]:
  "index (snd (writeFloat32Array view st)) = index (snd st) + int (4 * length view)"
  by (cases st) (simp add: writeFloat32Array_def)

lemma index_writeInt32Array [simp]:
  "index (snd (writeInt32Array view st)) = index (snd st) + int (4 * length view)"
  by (cases st) (simp add: writeInt32Array_def)

lemma index_writeUint8Array [simp]:
  "index (snd (writeUint8Array view st)) = index (snd st) + int (length view)"
  by (cases st) (simp add: writeUint8Array_def)


lemma foldl_add: "foldl (\<lambda>n x. n + g x) (n0::nat) xs = n0 + sum_list (map g xs)"
  by (induction xs arbitrary: n0) simp_all

lemma fresh_stream:
  "BinaryStream_new (h @ [replicate n 0]) (ArrayBufferRef (length h)) None None =
     Inr \<lparr>buffer = length h, uint8array = \<lparr>view_buffer = length h, view_byteOffset = 0, view_length = n\<rparr>,
          index = 0, byteLength = n\<rparr>"
  by (simp add: BinaryStream_new_def new_Uint8Array_def)


subsection \<open>Bytes, numbers and code units\<close>

lemma bits32_roundtrip:
  "uint8_bits32 (ucast v) (ucast (drop_bit 8 v)) (ucast (drop_bit 16 v)) (ucast (drop_bit 24 v)) = (v :: 32 word)"
  unfolding uint8_bits32_def
  apply (rule bit_word_eqI)
  apply (auto simp: bit_simps)
  subgoal for n by (cases "n < 24") simp_all
  done

text \<open>A number comes back from its four bytes if it is in the range of the cast.\<close>

lemma uint32_in_range:
  assumes "0 \<le> v" "v < 2 ^ 32"
  shows "uint (word_of_int v :: 32 word) = v"
  using assms by (simp add: uint_word_of_int_eq take_bit_int_eq_self)

lemma int32_in_range:
  assumes "- (2 ^ 31) \<le> v" "v < 2 ^ 31"
  shows "sint (word_of_int v :: 32 word) = v"
  using assms by (simp add: sint_sbintrunc' signed_take_bit_int_eq_self)

text \<open>
  The byte that \<open>write\<close> stores for a code unit is its low byte; a code unit comes back
  from that byte if it is below 256.
\<close>

lemma stored_code: "ToUint8 (charCodeAt c) = ucast c"
  by (simp add: ToUint8_def charCodeAt_def)

lemma charCode_roundtrip:
  assumes "c < 256"
  shows "fromCharCode (Some (ToUint8 (charCodeAt c))) = c"
proof -
  have u: "uint c < 256" using assms by (simp add: word_less_def)
  have "uint (ucast (ucast c :: byte) :: code_unit) = uint c"
    using u by (simp add: unsigned_ucast_eq unsigned_take_bit_eq take_bit_int_eq_self)
  then have "ucast (ucast c :: byte) = c"
    by (rule word_uint_eqI)
  then show ?thesis
    by (simp add: fromCharCode_def to_uint8_def stored_code)
qed

lemma stored_code_0:
  assumes "c < 256"
  shows "ToUint8 (charCodeAt c) = 0 \<longleftrightarrow> c = 0"
proof
  assume "ToUint8 (charCodeAt c) = 0"
  then have "fromCharCode (Some (ToUint8 (charCodeAt c))) = fromCharCode (Some 0)" by simp
  then show "c = 0"
    using charCode_roundtrip[OF assms] by (simp add: fromCharCode_def to_uint8_def)
next
  assume "c = 0"
  then show "ToUint8 (charCodeAt c) = 0" by (simp add: stored_code)
qed

lemma length_string_bytes [simp]: "length (string_bytes str) = length str"
  by (simp add: string_bytes_def)

lemma string_bytes_Nil [simp]: "string_bytes [] = []"
  by (simp add: string_bytes_def)

lemma length_code_units [simp]: "length (code_units str) = length str"
  by (simp add: code_units_def)

lemma string_bytes_append [simp]: "string_bytes (xs @ ys) = string_bytes xs @ string_bytes ys"
  by (simp add: string_bytes_def)

lemma string_bytes_Cons: "string_bytes (c # cs) = ToUint8 (charCodeAt c) # string_bytes cs"
  by (simp add: string_bytes_def)

lemma string_bytes_nul [simp]: "string_bytes [0] = [0]"
  by (simp add: string_bytes_def stored_code)

lemma length_bits32_uint8 [simp]: "length (bits32_uint8 v) = 4"
  by (simp add: bits32_uint8_def)

lemma length_uint32ToUint8 [simp]: "length (uint32ToUint8 v) = 4"
  by (simp add: uint32ToUint8_def)

lemma length_int32ToUint8 [simp]: "length (int32ToUint8 v) = 4"
  by (simp add: int32ToUint8_def)

subsection \<open>Writes on a new buffer\<close>

lemma u8_set_whole:
  assumes "a < length h" "length (h ! a) = n" "0 \<le> i" "nat i < n"
  shows "u8_set h \<lparr>view_buffer = a, view_byteOffset = 0, view_length = n\<rparr> i b = h[a := (h ! a)[nat i := b]]"
proof -
  have "i < int n" using assms by linarith
  then show ?thesis using assms by (simp add: u8_set_def)
qed

lemma u8_get_whole:
  assumes "a < length h" "length (h ! a) = n" "0 \<le> i" "nat i < n"
  shows "u8_get h \<lparr>view_buffer = a, view_byteOffset = 0, view_length = n\<rparr> i = Some (h ! a ! nat i)"
proof -
  have "i < int n" using assms by linarith
  then show ?thesis using assms by (simp add: u8_get_def)
qed

lemma store_bytes_whole:
  assumes "a < length h" "length (h ! a) = n" "0 \<le> i" "nat i + length bs \<le> n"
  shows "store_bytes h \<lparr>view_buffer = a, view_byteOffset = 0, view_length = n\<rparr> i bs =
           h[a := take (nat i) (h ! a) @ bs @ drop (nat i + length bs) (h ! a)]"
  using assms
proof (induction bs arbitrary: h i)
  case Nil
  then show ?case by (simp add: list_update_same_conv)
next
  case (Cons b bs)
  let ?v = "\<lparr>view_buffer = a, view_byteOffset = 0, view_length = n\<rparr>"
  let ?h = "h[a := (h ! a)[nat i := b]]"
  have lt: "nat i < n" using Cons.prems by simp
  have s: "u8_set h ?v i b = ?h"
    by (rule u8_set_whole) (use Cons.prems lt in auto)
  have ih: "store_bytes ?h ?v (i + 1) bs =
              ?h[a := take (nat (i + 1)) (?h ! a) @ bs @ drop (nat (i + 1) + length bs) (?h ! a)]"
    by (rule Cons.IH) (use Cons.prems in auto)
  have n1: "nat (i + 1) = Suc (nat i)" using Cons.prems by simp
  have t: "take (Suc (nat i)) ((h ! a)[nat i := b]) = take (nat i) (h ! a) @ [b]"
    using lt Cons.prems(2) by (simp add: take_Suc_conv_app_nth)
  show ?case
    using Cons.prems
    by (simp add: s ih n1 t)
qed

lemma wrote_init:
  "wrote (length h) n [] (h @ [replicate n 0], whole_stream (length h) n 0)"
  by (simp add: wrote_def)

lemma wrote_store:
  assumes "wrote a n bs (h, s)" "length bs + length xs \<le> n"
  shows "wrote a n (bs @ xs)
           (store_bytes h (uint8array s) (index s) xs, s\<lparr>index := index s + int (length xs)\<rparr>)"
proof -
  from assms(1) have s: "s = whole_stream a n (int (length bs))" and a: "a < length h"
    and c: "h ! a = bs @ replicate (n - length bs) 0"
    by (simp_all add: wrote_def)
  have len: "length (h ! a) = n" using assms(1) by (simp add: wrote_def)
  have st: "store_bytes h \<lparr>view_buffer = a, view_byteOffset = 0, view_length = n\<rparr> (int (length bs)) xs =
          h[a := take (nat (int (length bs))) (h ! a) @ xs @ drop (nat (int (length bs)) + length xs) (h ! a)]"
    by (rule store_bytes_whole) (use a len assms(2) in auto)
  have d: "drop (length bs + length xs) (bs @ replicate (n - length bs) 0) =
             replicate (n - (length bs + length xs)) (0::byte)"
    by simp
  show ?thesis
    using a assms(2)
    by (simp add: wrote_def s whole_stream_def st c d)
qed

lemma wrote_writeUint8Array:
  assumes "wrote a n bs st" "length bs + length xs \<le> n"
  shows "wrote a n (bs @ xs) (writeUint8Array xs st)"
  using wrote_store[of a n bs "fst st" "snd st" xs] assms
  by (cases st) (simp add: writeUint8Array_def)

lemma wrote_write_str:
  assumes "wrote a n bs st" "length bs + length str \<le> n"
  shows "wrote a n (bs @ string_bytes str) (write_str str st)"
  using wrote_store[of a n bs "fst st" "snd st" "string_bytes str"] assms
  by (cases st) (simp add: write_str_def)

lemma wrote_writeUint32:
  assumes "wrote a n bs st" "length bs + 4 \<le> n"
  shows "wrote a n (bs @ uint32ToUint8 v) (writeUint32 v st)"
  using wrote_store[of a n bs "fst st" "snd st" "uint32ToUint8 v"] assms
  by (cases st) (simp add: writeUint32_def)

lemma wrote_writeInt32:
  assumes "wrote a n bs st" "length bs + 4 \<le> n"
  shows "wrote a n (bs @ int32ToUint8 v) (writeInt32 v st)"
  using wrote_store[of a n bs "fst st" "snd st" "int32ToUint8 v"] assms
  by (cases st) (simp add: writeInt32_def)

lemma wrote_triggers:
  assumes "wrote a n bs st" "length bs + length (concat (map enc ts)) \<le> n"
  shows "wrote a n (bs @ concat (map enc ts)) (fold (CustomTextTrigger_save enc) ts st)"
  using assms
proof (induction ts arbitrary: bs st)
  case Nil
  then show ?case by simp
next
  case (Cons t ts)
  have "wrote a n (bs @ enc t) (CustomTextTrigger_save enc t st)"
    unfolding CustomTextTrigger_save_def
    by (rule wrote_writeUint8Array) (use Cons.prems in auto)
  then have "wrote a n ((bs @ enc t) @ concat (map enc ts))
               (fold (CustomTextTrigger_save enc) ts (CustomTextTrigger_save enc t st))"
    by (rule Cons.IH) (use Cons.prems in auto)
  then show ?case by simp
qed

lemma length_concat_enc:
  assumes "\<forall>t. length (enc t) = len t"
  shows "length (concat (map enc ts)) = sum_list (map len ts)"
  using assms by (induction ts) simp_all

lemma Wct_getByteLength_bytes:
  assumes len: "\<forall>t. length (enc t) = len t"
    and tr: "wct_version w = 1 \<longrightarrow> wct_trigger w \<noteq> None"
  shows "War3MapWct_getByteLength len w = Inr (length (War3MapWct_bytes enc w))"
proof (cases "wct_version w = 1")
  case True
  with tr obtain t where t: "wct_trigger w = Some t" by auto
  show ?thesis
    using True len
    by (simp add: War3MapWct_getByteLength_def War3MapWct_bytes_def t foldl_add length_concat_enc[OF len])
next
  case False
  then show ?thesis
    by (simp add: War3MapWct_getByteLength_def War3MapWct_bytes_def foldl_add length_concat_enc[OF len])
qed

lemma Wct_save_stream_wrote:
  assumes len: "\<forall>t. length (enc t) = len t"
    and tr: "wct_version w = 1 \<longrightarrow> wct_trigger w \<noteq> None"
  shows "\<exists>st. War3MapWct_save_stream len enc h w = Inr (length h, st)
           \<and> wrote (length h) (length (War3MapWct_bytes enc w)) (War3MapWct_bytes enc w) st"
proof -
  let ?n = "length (War3MapWct_bytes enc w)"
  let ?a = "length h"
  let ?h1 = "h @ [replicate ?n 0]"
  let ?s0 = "whole_stream ?a ?n 0"
  note g = Wct_getByteLength_bytes[OF len tr]
  have fs: "BinaryStream_new ?h1 (ArrayBufferRef ?a) None None = Inr ?s0"
    by (simp add: fresh_stream whole_stream_def)
  have w0: "wrote ?a ?n [] (?h1, ?s0)" by (rule wrote_init)
  let ?st1 = "writeInt32 (wct_version w) (?h1, ?s0)"
  have w1: "wrote ?a ?n (int32ToUint8 (wct_version w)) ?st1"
    using wrote_writeInt32[OF w0, of "wct_version w"] by (simp add: War3MapWct_bytes_def)
  show ?thesis
  proof (cases "wct_version w = 1")
    case True
    with tr obtain t where t: "wct_trigger w = Some t" by auto
    let ?b2 = "int32ToUint8 (wct_version w) @ string_bytes (wct_comment w @ [0])"
    let ?st2 = "write_str (wct_comment w @ [0]) ?st1"
    have w2: "wrote ?a ?n ?b2 ?st2"
      by (rule wrote_write_str[OF w1]) (simp add: War3MapWct_bytes_def True)
    let ?st3 = "CustomTextTrigger_save enc t ?st2"
    have w3: "wrote ?a ?n (?b2 @ enc t) ?st3"
      unfolding CustomTextTrigger_save_def
      by (rule wrote_writeUint8Array[OF w2]) (simp add: War3MapWct_bytes_def True t)
    let ?st4 = "writeUint32 (int (length (wct_triggers w))) ?st3"
    have w4: "wrote ?a ?n ((?b2 @ enc t) @ uint32ToUint8 (int (length (wct_triggers w)))) ?st4"
      by (rule wrote_writeUint32[OF w3]) (simp add: War3MapWct_bytes_def True t)
    have w5: "wrote ?a ?n (((?b2 @ enc t) @ uint32ToUint8 (int (length (wct_triggers w))))
                 @ concat (map enc (wct_triggers w)))
               (fold (CustomTextTrigger_save enc) (wct_triggers w) ?st4)"
      by (rule wrote_triggers[OF w4]) (simp add: War3MapWct_bytes_def True t)
    have b: "((?b2 @ enc t) @ uint32ToUint8 (int (length (wct_triggers w))))
                 @ concat (map enc (wct_triggers w)) = War3MapWct_bytes enc w"
      by (simp add: War3MapWct_bytes_def True t)
    show ?thesis
      using w5 unfolding b
      by (simp add: War3MapWct_save_stream_def g new_ArrayBuffer_def fs True t Let_def)
  next
    case False
    let ?st4 = "writeUint32 (int (length (wct_triggers w))) ?st1"
    have w4: "wrote ?a ?n (int32ToUint8 (wct_version w) @ uint32ToUint8 (int (length (wct_triggers w)))) ?st4"
      by (rule wrote_writeUint32[OF w1]) (simp add: War3MapWct_bytes_def False)
    have w5: "wrote ?a ?n ((int32ToUint8 (wct_version w) @ uint32ToUint8 (int (length (wct_triggers w))))
                 @ concat (map enc (wct_triggers w)))
               (fold (CustomTextTrigger_save enc) (wct_triggers w) ?st4)"
      by (rule wrote_triggers[OF w4]) (simp add: War3MapWct_bytes_def False)
    have b: "(int32ToUint8 (wct_version w) @ uint32ToUint8 (int (length (wct_triggers w))))
                 @ concat (map enc (wct_triggers w)) = War3MapWct_bytes enc w"
      by (simp add: War3MapWct_bytes_def False)
    show ?thesis
      using w5 unfolding b
      by (simp add: War3MapWct_save_stream_def g new_ArrayBuffer_def fs False Let_def)
  qed
qed

lemma u8_get_at:
  assumes "a < length h" "h ! a = pre @ xs @ post" "k < length xs"
  shows "u8_get h \<lparr>view_buffer = a, view_byteOffset = 0, view_length = length (h ! a)\<rparr>
           (int (length pre) + int k) = Some (xs ! k)"
proof -
  have "u8_get h \<lparr>view_buffer = a, view_byteOffset = 0, view_length = length (h ! a)\<rparr>
           (int (length pre) + int k) = Some (h ! a ! nat (int (length pre) + int k))"
    by (rule u8_get_whole) (use assms in auto)
  moreover have "nat (int (length pre) + int k) = length pre + k" by simp
  ultimately show ?thesis using assms by (simp add: nth_append)
qed

text \<open>The four bytes of a stream at its index, as 32 bits.\<close>

lemma bits32_at:
  assumes "a < length h" "h ! a = pre @ bits32_uint8 v @ post" "n = length (h ! a)"
    and "u = uint8array (whole_stream a n (int (length pre)))" and "i = int (length pre)"
  shows "uint8_bits32 (to_uint8 (u8_get h u i)) (to_uint8 (u8_get h u (i + 1)))
           (to_uint8 (u8_get h u (i + 2))) (to_uint8 (u8_get h u (i + 3))) = v"
proof -
  let ?u = "\<lparr>view_buffer = a, view_byteOffset = 0, view_length = length (h ! a)\<rparr>"
  let ?i = "int (length pre)"
  note g = u8_get_at[OF assms(1,2)]
  have g0: "u8_get h ?u ?i = Some (ucast v)" using g[of 0] by (simp add: bits32_uint8_def)
  have g1: "u8_get h ?u (?i + 1) = Some (ucast (drop_bit 8 v))" using g[of 1] by (simp add: bits32_uint8_def)
  have g2: "u8_get h ?u (?i + 2) = Some (ucast (drop_bit 16 v))" using g[of 2] by (simp add: bits32_uint8_def)
  have g3: "u8_get h ?u (?i + 3) = Some (ucast (drop_bit 24 v))" using g[of 3] by (simp add: bits32_uint8_def)
  show ?thesis
    by (simp add: assms(3,4,5) whole_stream_def g0 g1 g2 g3 to_uint8_def bits32_roundtrip)
qed

lemma readUint32_bits_at:
  assumes "a < length h" "h ! a = pre @ uint32ToUint8 v @ post" "n = length (h ! a)"
  shows "readUint32 h (whole_stream a n (int (length pre))) =
           (uint (word_of_int v :: 32 word), whole_stream a n (int (length pre) + 4))"
proof -
  have c: "h ! a = pre @ bits32_uint8 (word_of_int v) @ post"
    using assms(2) by (simp add: uint32ToUint8_def)
  show ?thesis
    using bits32_at[OF assms(1) c assms(3) refl refl]
    by (simp add: readUint32_def Let_def uint8ToUint32_def whole_stream_def)
qed

lemma readUint32_at:
  assumes "a < length h" "h ! a = pre @ uint32ToUint8 v @ post" "n = length (h ! a)"
    and "0 \<le> v" "v < 2 ^ 32"
  shows "readUint32 h (whole_stream a n (int (length pre))) = (v, whole_stream a n (int (length pre) + 4))"
  using readUint32_bits_at[OF assms(1,2,3)] uint32_in_range[OF assms(4,5)] by simp

lemma readInt32_at:
  assumes "a < length h" "h ! a = pre @ int32ToUint8 v @ post" "n = length (h ! a)"
    and "- (2 ^ 31) \<le> v" "v < 2 ^ 31"
  shows "readInt32 h (whole_stream a n (int (length pre))) = (v, whole_stream a n (int (length pre) + 4))"
proof -
  have c: "h ! a = pre @ bits32_uint8 (word_of_int v) @ post"
    using assms(2) by (simp add: int32ToUint8_def)
  show ?thesis
    using bits32_at[OF assms(1) c assms(3) refl refl] int32_in_range[OF assms(4,5)]
    by (simp add: readInt32_def Let_def uint8ToInt32_def whole_stream_def)
qed

lemma bytes_ahead_at:
  assumes "a < length h" "h ! a = pre @ rest" "n = length (h ! a)"
  shows "bytes_ahead h (whole_stream a n (int (length pre))) = rest"
proof (rule nth_equalityI)
  show "length (bytes_ahead h (whole_stream a n (int (length pre)))) = length rest"
    using assms by (simp add: bytes_ahead_def whole_stream_def)
next
  fix k assume "k < length (bytes_ahead h (whole_stream a n (int (length pre))))"
  then have k: "k < length rest" using assms by (simp add: bytes_ahead_def whole_stream_def)
  have "u8_get h \<lparr>view_buffer = a, view_byteOffset = 0, view_length = length (h ! a)\<rparr>
           (int (length pre) + int k) = Some (rest ! k)"
    using u8_get_at[OF assms(1), of pre rest "[]" k] assms(2) k by simp
  then show "bytes_ahead h (whole_stream a n (int (length pre))) ! k = rest ! k"
    using k assms by (simp add: bytes_ahead_def whole_stream_def to_uint8_def)
qed

lemma CustomTextTrigger_new_at:
  assumes "\<forall>t rest. dec (enc t @ rest) = (t, length (enc t))"
    and "a < length h" "h ! a = pre @ enc t @ post" "n = length (h ! a)"
  shows "CustomTextTrigger_new dec h (whole_stream a n (int (length pre))) =
           (t, whole_stream a n (int (length pre) + int (length (enc t))))"
  using bytes_ahead_at[OF assms(2), of pre "enc t @ post" n] assms
  by (simp add: CustomTextTrigger_new_def whole_stream_def)

lemma load_triggers_at:
  assumes "\<forall>t rest. dec (enc t @ rest) = (t, length (enc t))"
    and "a < length h" "h ! a = pre @ concat (map enc ts) @ post" "n = length (h ! a)"
    and "length trs = i"
  shows "load_triggers dec h i (i + length ts) trs (whole_stream a n (int (length pre))) =
           (trs @ ts, whole_stream a n (int (length pre) + int (length (concat (map enc ts)))))"
  using assms(3,5)
proof (induction ts arbitrary: i trs pre)
  case Nil
  then show ?case by (subst load_triggers.simps) simp
next
  case (Cons t ts)
  have n: "CustomTextTrigger_new dec h (whole_stream a n (int (length pre))) =
             (t, whole_stream a n (int (length pre) + int (length (enc t))))"
    by (rule CustomTextTrigger_new_at[OF assms(1,2) _ assms(4), of _ _ "concat (map enc ts) @ post"])
       (use Cons.prems in simp)
  have ih: "load_triggers dec h (i + 1) (i + 1 + length ts) (trs @ [t])
              (whole_stream a n (int (length (pre @ enc t)))) =
            ((trs @ [t]) @ ts, whole_stream a n (int (length (pre @ enc t)) + int (length (concat (map enc ts)))))"
    by (rule Cons.IH) (use Cons.prems in simp_all)
  show ?case
    apply (subst load_triggers.simps)
    using ih Cons.prems(2)
    apply (simp add: n set_index_def add.assoc)
    done
qed

lemma peekUntilNull_loop_at:
  assumes "a < length h" "n = length (h ! a)"
    and "h ! a = pre @ string_bytes (seen @ todo) @ 0 # post"
    and "0 \<notin> set todo" and "\<forall>c\<in>set todo. c < 256"
  shows "peekUntilNull_loop h (whole_stream a n (int (length pre))) seen
           (u8_get h (uint8array (whole_stream a n (int (length pre))))
              (index (whole_stream a n (int (length pre))) + int (length seen)))
           (int (length seen)) = Some (seen @ todo)"
  using assms(3,4,5)
proof (induction todo arbitrary: seen)
  case Nil
  have "u8_get h \<lparr>view_buffer = a, view_byteOffset = 0, view_length = length (h ! a)\<rparr>
           (int (length pre) + int (length seen)) = Some ((string_bytes seen @ [0]) ! length seen)"
    by (rule u8_get_at[OF assms(1), of _ _ post]) (use Nil in simp_all)
  then show ?case
    by (subst peekUntilNull_loop.simps) (simp add: whole_stream_def assms(2) nth_append)
next
  case (Cons c todo)
  have lt: "c < 256" using Cons.prems(3) by simp
  have c0: "ToUint8 (charCodeAt c) \<noteq> 0" using Cons.prems(2) by (auto simp: stored_code_0[OF lt])
  have "u8_get h \<lparr>view_buffer = a, view_byteOffset = 0, view_length = length (h ! a)\<rparr>
           (int (length pre) + int (length seen))
          = Some ((string_bytes (seen @ c # todo) @ [0]) ! length seen)"
    by (rule u8_get_at[OF assms(1), of _ _ post]) (use Cons.prems in simp_all)
  then have g: "u8_get h \<lparr>view_buffer = a, view_byteOffset = 0, view_length = length (h ! a)\<rparr>
           (int (length pre) + int (length seen)) = Some (ToUint8 (charCodeAt c))"
    by (simp add: nth_append string_bytes_Cons)
  have ih: "peekUntilNull_loop h (whole_stream a n (int (length pre))) (seen @ [c])
           (u8_get h (uint8array (whole_stream a n (int (length pre))))
              (index (whole_stream a n (int (length pre))) + int (length (seen @ [c]))))
           (int (length (seen @ [c]))) = Some ((seen @ [c]) @ todo)"
    by (rule Cons.IH) (use Cons.prems in simp_all)
  let ?s = "whole_stream a n (int (length pre))"
  have g': "u8_get h (uint8array ?s) (index ?s + int (length seen)) = Some (ToUint8 (charCodeAt c))"
    using g by (simp add: whole_stream_def assms(2))
  have e: "int (length (seen @ [c])) = int (length seen) + 1" by simp
  have a: "(seen @ [c]) @ todo = seen @ c # todo" by simp
  note ih' = ih[unfolded e a]
  show ?case
    apply (subst peekUntilNull_loop.simps)
    apply (simp only: g' option.inject c0 not_False_eq_True if_True charCode_roundtrip[OF lt] ih')
    done
qed

lemma readUntilNull_at:
  assumes "a < length h" "n = length (h ! a)"
    and "h ! a = pre @ string_bytes str @ 0 # post"
    and "0 \<notin> set str" and "\<forall>c\<in>set str. c < 256"
  shows "readUntilNull h (whole_stream a n (int (length pre))) =
           Some (str, whole_stream a n (int (length pre) + int (length str) + 1))"
  using peekUntilNull_loop_at[OF assms(1,2), of pre "[]" str post] assms(3,4,5)
  by (simp add: readUntilNull_def peekUntilNull_def whole_stream_def)

lemma BinaryStream_new_whole:
  "a < length h \<Longrightarrow>
   BinaryStream_new h (ArrayBufferRef a) None None = Inr (whole_stream a (length (h ! a)) 0)"
  by (simp add: BinaryStream_new_def new_Uint8Array_def whole_stream_def)

lemma Wct_load_bytes:
  assumes dec: "\<forall>t rest. dec (enc t @ rest) = (t, length (enc t))"
    and tr: "wct_version w = 1 \<longrightarrow> wct_trigger w \<noteq> None"
    and ver: "- (2 ^ 31) \<le> wct_version w" "wct_version w < 2 ^ 31"
    and nul: "0 \<notin> set (wct_comment w)"
    and lat: "\<forall>c\<in>set (wct_comment w). c < 256"
    and cnt: "length (wct_triggers w) < 2 ^ 32"
    and a: "a < length h" and c: "h ! a = War3MapWct_bytes enc w"
  shows "War3MapWct_new dec h (Some (ArrayBufferRef a)) =
           Some (Inr (if wct_version w = 1 then w
                      else w\<lparr>wct_comment := [], wct_trigger := None\<rparr>))"
proof -
  let ?n = "length (h ! a)"
  let ?v = "wct_version w"
  let ?ts = "wct_triggers w"
  let ?cnt = "uint32ToUint8 (int (length ?ts))"
  let ?tail = "?cnt @ concat (map enc ?ts)"
  have cnt': "int (length ?ts) < 2 ^ 32"
    using cnt by (metis of_nat_less_iff of_nat_numeral of_nat_power)
  have new: "BinaryStream_new h (ArrayBufferRef a) None None = Inr (whole_stream a ?n 0)"
    by (rule BinaryStream_new_whole[OF a])
  define s0 where "s0 = whole_stream a ?n 0"
  note new = new[folded s0_def]
  show ?thesis
  proof (cases "?v = 1")
    case True
    with tr obtain t where t: "wct_trigger w = Some t" by auto
    let ?p1 = "int32ToUint8 ?v"
    let ?p2 = "?p1 @ string_bytes (wct_comment w) @ [0]"
    let ?p3 = "?p2 @ enc t"
    let ?p4 = "?p3 @ ?cnt"
    define s1 where "s1 = whole_stream a ?n (int (length ?p1))"
    define s2 where "s2 = whole_stream a ?n (int (length ?p2))"
    define s3 where "s3 = whole_stream a ?n (int (length ?p3))"
    define s4 where "s4 = whole_stream a ?n (int (length ?p4))"
    define s5 where "s5 = whole_stream a ?n (int (length ?p4) + int (length (concat (map enc ?ts))))"
    have c': "h ! a = ?p1 @ string_bytes (wct_comment w) @ [0] @ enc t @ ?tail"
      using c by (simp add: War3MapWct_bytes_def True t)
    have r1: "readInt32 h s0 = (?v, s1)"
      unfolding s0_def s1_def
      using readInt32_at[OF a, of "[]" ?v _ ?n] c' ver by (simp add: add.assoc)
    have r2: "readUntilNull h s1 = Some (wct_comment w, s2)"
      unfolding s1_def s2_def
      using readUntilNull_at[OF a refl, of ?p1 "wct_comment w" "enc t @ ?tail"] c' nul lat by (simp add: add.assoc)
    have r3: "CustomTextTrigger_new dec h s2 = (t, s3)"
      unfolding s2_def s3_def
      using CustomTextTrigger_new_at[OF dec a, of ?p2 t ?tail ?n] c' by (simp add: add.assoc)
    have r4: "readUint32 h s3 = (int (length ?ts), s4)"
      unfolding s3_def s4_def
      using readUint32_at[OF a, of ?p3 "int (length ?ts)" "concat (map enc ?ts)" ?n] c' cnt' by (simp add: add.assoc)
    have r5: "load_triggers dec h 0 (length ?ts) [] s4 = (?ts, s5)"
      unfolding s4_def s5_def
      using load_triggers_at[OF dec a, of ?p4 ?ts "[]" ?n "[]" 0] c' by (simp add: add.assoc)
    show ?thesis
      using True
      by (simp add: War3MapWct_new_def War3MapWct_load_def new r1 r2 r3 r4 r5 t[symmetric])
  next
    case False
    let ?p1 = "int32ToUint8 ?v"
    let ?p4 = "?p1 @ ?cnt"
    define s1 where "s1 = whole_stream a ?n (int (length ?p1))"
    define s4 where "s4 = whole_stream a ?n (int (length ?p4))"
    define s5 where "s5 = whole_stream a ?n (int (length ?p4) + int (length (concat (map enc ?ts))))"
    have c': "h ! a = ?p1 @ ?tail"
      using c by (simp add: War3MapWct_bytes_def False)
    have r1: "readInt32 h s0 = (?v, s1)"
      unfolding s0_def s1_def
      using readInt32_at[OF a, of "[]" ?v _ ?n] c' ver by (simp add: add.assoc)
    have r4: "readUint32 h s1 = (int (length ?ts), s4)"
      unfolding s1_def s4_def
      using readUint32_at[OF a, of ?p1 "int (length ?ts)" "concat (map enc ?ts)" ?n] c' cnt' by (simp add: add.assoc)
    have r5: "load_triggers dec h 0 (length ?ts) [] s4 = (?ts, s5)"
      unfolding s4_def s5_def
      using load_triggers_at[OF dec a, of ?p4 ?ts "[]" ?n "[]" 0] c' by (simp add: add.assoc)
    show ?thesis
      using False
      by (simp add: War3MapWct_new_def War3MapWct_load_def new r1 r4 r5)
  qed
qed

lemma read_at:
  assumes "a < length h" "h ! a = pre @ xs @ post" "n = length (h ! a)" "length xs = k" "0 < k"
  shows "read h (whole_stream a n (int (length pre))) (int k) False =
           (map (\<lambda>x. fromCharCode (Some x)) (filter (\<lambda>x. x \<noteq> 0) xs),
            whole_stream a n (int (length pre) + int k))"
proof -
  let ?s = "whole_stream a n (int (length pre))"
  have m: "map (\<lambda>j. u8_get h (uint8array ?s) (index ?s + int j)) [0..<k] = map Some xs"
  proof (rule nth_equalityI)
    show "length (map (\<lambda>j. u8_get h (uint8array ?s) (index ?s + int j)) [0..<k]) = length (map Some xs)"
      using assms(4) by simp
  next
    fix j assume "j < length (map (\<lambda>j. u8_get h (uint8array ?s) (index ?s + int j)) [0..<k])"
    then have j: "j < length xs" using assms(4) by simp
    show "map (\<lambda>j. u8_get h (uint8array ?s) (index ?s + int j)) [0..<k] ! j = map Some xs ! j"
      using u8_get_at[OF assms(1,2) j] j assms(3,4) by (simp add: whole_stream_def)
  qed
  have f: "filter (\<lambda>b. case b of None \<Rightarrow> False | Some x \<Rightarrow> 0 < x) (map Some xs)
             = map Some (filter (\<lambda>x. x \<noteq> 0) xs)"
    by (induction xs) (simp_all add: word_neq_0_conv)
  have "peek h ?s (int k) False = map fromCharCode (map Some (filter (\<lambda>x. x \<noteq> 0) xs))"
    using peek_loop_eq[of 0 h ?s "int k" False "[]"] m f
    by (simp add: peek_def)
  then show ?thesis
    using assms(5) by (simp add: read_def Let_def whole_stream_def comp_def)
qed

lemma path_bytes_back:
  assumes "0 \<notin> set p" "\<forall>c\<in>set p. c < 256"
  shows "map (\<lambda>x. fromCharCode (Some x)) (filter (\<lambda>x. x \<noteq> 0) (string_bytes p @ replicate k 0)) = p"
proof -
  have "filter (\<lambda>x. x \<noteq> 0) (string_bytes p) = string_bytes p"
    using assms by (induction p) (auto simp: string_bytes_Cons stored_code_0)
  moreover have "map (\<lambda>x. fromCharCode (Some x)) (string_bytes p) = p"
    using assms(2) by (induction p) (auto simp: string_bytes_Cons charCode_roundtrip)
  ultimately show ?thesis
    by simp
qed

subsection \<open>A texture written and read back\<close>

text \<open>
  What \<open>readMdx\<close> finds where \<open>writeMdx\<close> wrote a texture with a path of at most 260 code
  units, in a buffer that held the bytes \<open>old\<close>: the two numbers modulo \<open>2 ^ 32\<close>, and as
  the path the low bytes of its code units followed by what the buffer held in the bytes
  that \<open>writeMdx\<close> skips, zero bytes left out.
\<close>

lemma wrote_wrote_over: "wrote a n bs st \<longleftrightarrow> wrote_over (replicate n 0) a bs st"
  by (cases st) (simp add: wrote_def wrote_over_def)

lemma wrote_over_store:
  assumes "wrote_over old a bs (h, s)" "length bs + length xs \<le> length old"
  shows "wrote_over old a (bs @ xs)
           (store_bytes h (uint8array s) (index s) xs, s\<lparr>index := index s + int (length xs)\<rparr>)"
proof -
  let ?n = "length old"
  from assms(1) have s: "s = whole_stream a ?n (int (length bs))" and a: "a < length h"
    and c: "h ! a = bs @ drop (length bs) old"
    by (simp_all add: wrote_over_def)
  have len: "length (h ! a) = ?n" using assms(1) by (simp add: wrote_over_def)
  have st: "store_bytes h \<lparr>view_buffer = a, view_byteOffset = 0, view_length = ?n\<rparr> (int (length bs)) xs =
          h[a := take (nat (int (length bs))) (h ! a) @ xs @ drop (nat (int (length bs)) + length xs) (h ! a)]"
    by (rule store_bytes_whole) (use a len assms(2) in auto)
  have d: "drop (length bs + length xs) (bs @ drop (length bs) old) = drop (length bs + length xs) old"
    by (simp add: add.commute)
  have e: "length xs + length bs = length bs + length xs" by simp
  show ?thesis
    using a assms(2)
    by (simp add: wrote_over_def s whole_stream_def st c d e)
qed

lemma wrote_over_write_str:
  assumes "wrote_over old a bs st" "length bs + length str \<le> length old"
  shows "wrote_over old a (bs @ string_bytes str) (write_str str st)"
  using wrote_over_store[of old a bs "fst st" "snd st" "string_bytes str"] assms
  by (cases st) (simp add: write_str_def)

lemma wrote_over_writeUint32:
  assumes "wrote_over old a bs st" "length bs + 4 \<le> length old"
  shows "wrote_over old a (bs @ uint32ToUint8 v) (writeUint32 v st)"
  using wrote_over_store[of old a bs "fst st" "snd st" "uint32ToUint8 v"] assms
  by (cases st) (simp add: writeUint32_def)

lemma wrote_over_skip:
  assumes "wrote_over old a bs st" "length bs + k \<le> length old"
  shows "wrote_over old a (bs @ take k (drop (length bs) old)) (skip_w (int k) st)"
proof -
  have "drop (length bs) old = take k (drop (length bs) old) @ drop (length bs + k) old"
    by (metis append_take_drop_id drop_drop add.commute)
  moreover have "length (take k (drop (length bs) old)) = k"
    using assms(2) by simp
  ultimately show ?thesis
    using assms by (cases st) (auto simp add: wrote_over_def skip_w_def skip_def whole_stream_def)
qed

lemma Texture_written_read:
  assumes w: "wrote_over old a bs st" and room: "length bs + 268 \<le> length old"
    and p: "path t = Some p" "length p \<le> 260"
  shows "\<exists>st'. Texture_writeMdx t st = Inr st'
           \<and> index (snd st') = int (length bs) + 268
           \<and> Texture_readMdx (fst st') (seek (int (length bs)) (snd st')) t0 =
               (t0\<lparr>replaceableId := uint (word_of_int (replaceableId t) :: 32 word),
                    path := Some (map (\<lambda>x. fromCharCode (Some x))
                              (filter (\<lambda>x. x \<noteq> 0)
                                 (string_bytes p @ take (260 - length p) (drop (length bs + 4 + length p) old)))),
                    flags := uint (word_of_int (flags t) :: 32 word)\<rparr>, snd st')"
proof -
  let ?n = "length old"
  let ?r = "uint32ToUint8 (replaceableId t)"
  let ?pb = "string_bytes p"
  let ?z = "take (260 - length p) (drop (length bs + 4 + length p) old)"
  let ?f = "uint32ToUint8 (flags t)"
  let ?st1 = "writeUint32 (replaceableId t) st"
  let ?st2 = "write_str p ?st1"
  let ?st3 = "skip_w (int (260 - length p)) ?st2"
  let ?st4 = "writeUint32 (flags t) ?st3"
  have w1: "wrote_over old a (bs @ ?r) ?st1"
    by (rule wrote_over_writeUint32[OF w]) (use room in simp)
  have w2: "wrote_over old a ((bs @ ?r) @ ?pb) ?st2"
    by (rule wrote_over_write_str[OF w1]) (use room p(2) in simp)
  have w3: "wrote_over old a (((bs @ ?r) @ ?pb) @ ?z) ?st3"
    using wrote_over_skip[OF w2, of "260 - length p"] room p(2) by (simp add: add.assoc)
  have lz: "length ?z = 260 - length p" using room p(2) by simp
  have w4: "wrote_over old a ((((bs @ ?r) @ ?pb) @ ?z) @ ?f) ?st4"
    by (rule wrote_over_writeUint32[OF w3]) (use room p(2) lz in simp)
  have k: "260 - int (length p) = int (260 - length p)" using p(2) by simp
  have wr: "Texture_writeMdx t st = Inr ?st4"
    by (simp add: Texture_writeMdx_def p(1) Let_def k)
  obtain h' s' where st4: "?st4 = (h', s')" by (cases ?st4)
  let ?tot = "length bs + 268"
  have tot: "length ((((bs @ ?r) @ ?pb) @ ?z) @ ?f) = ?tot" using p(2) lz by simp
  from w4[unfolded st4] have s': "s' = whole_stream a ?n (int ?tot)" and a: "a < length h'"
    and c: "h' ! a = bs @ ?r @ ?pb @ ?z @ ?f @ drop ?tot old"
    unfolding wrote_over_def tot by simp_all
  have n: "?n = length (h' ! a)" using c room p(2) lz by simp
  define s0 where "s0 = whole_stream a ?n (int (length bs))"
  define s1 where "s1 = whole_stream a ?n (int (length bs) + 4)"
  define s2 where "s2 = whole_stream a ?n (int (length bs) + 264)"
  have sk: "seek (int (length bs)) s' = s0"
    by (simp add: seek_def s' s0_def whole_stream_def)
  have r1: "readUint32 h' s0 = (uint (word_of_int (replaceableId t) :: 32 word), s1)"
    unfolding s0_def s1_def
    by (rule readUint32_bits_at[OF a _ n, of bs _ "?pb @ ?z @ ?f @ drop ?tot old"]) (simp add: c)
  have r2: "read h' s1 260 False =
              (map (\<lambda>x. fromCharCode (Some x)) (filter (\<lambda>x. x \<noteq> 0) (?pb @ ?z)), s2)"
    using read_at[OF a _ n, of "bs @ ?r" "?pb @ ?z" "?f @ drop ?tot old" 260] c p(2) lz
    by (simp add: s1_def s2_def add.commute)
  have r3: "readUint32 h' s2 = (uint (word_of_int (flags t) :: 32 word), s')"
    using readUint32_bits_at[OF a _ n, of "bs @ ?r @ ?pb @ ?z" "flags t" "drop ?tot old"] c p(2) lz
    by (simp add: s2_def s' add.commute)
  have rd: "Texture_readMdx h' s0 t0 =
              (t0\<lparr>replaceableId := uint (word_of_int (replaceableId t) :: 32 word),
                   path := Some (map (\<lambda>x. fromCharCode (Some x)) (filter (\<lambda>x. x \<noteq> 0) (?pb @ ?z))),
                   flags := uint (word_of_int (flags t) :: 32 word)\<rparr>, s')"
    by (simp add: Texture_readMdx_def r1 r2 r3)
  show ?thesis
    using wr st4 sk rd s' by (simp add: whole_stream_def)
qed

lemma Texture_roundtrip:
  assumes w: "wrote a n bs st" and room: "length bs + 268 \<le> n"
    and p: "path t = Some p" "length p \<le> 260" "0 \<notin> set p" "\<forall>c\<in>set p. c < 256"
    and rid: "0 \<le> replaceableId t" "replaceableId t < 2 ^ 32"
    and fl: "0 \<le> flags t" "flags t < 2 ^ 32"
  shows "\<exists>st'. Texture_writeMdx t st = Inr st'
           \<and> index (snd st') = int (length bs) + 268
           \<and> Texture_readMdx (fst st') (seek (int (length bs)) (snd st')) t0 = (t, snd st')"
proof -
  have w': "wrote_over (replicate n 0) a bs st"
    using w by (simp add: wrote_wrote_over)
  have room': "length bs + 268 \<le> length (replicate n (0::byte))"
    using room by simp
  have z: "take (260 - length p) (drop (length bs + 4 + length p) (replicate n (0::byte)))
             = replicate (260 - length p) 0"
    using room p(2) by simp
  have t: "t0\<lparr>replaceableId := replaceableId t, path := Some p, flags := flags t\<rparr> = t"
    using p(1) by simp
  show ?thesis
    using Texture_written_read[OF w' room' p(1,2), of t0]
    by (simp only: z path_bytes_back[OF p(3,4)] uint32_in_range[OF rid] uint32_in_range[OF fl] t)
qed



text \<open>
  C2 (round trip), as the claim states it: loading what \<open>save()\<close> wrote gives back every
  field, for version 1 and for any other version, and \<open>readMdx\<close> on what \<open>writeMdx\<close> wrote
  gives back the texture. Five objects for which it does not:

  \<^item> the trigger file of version 0 with the comment \<open>a\<close> is saved as 8 bytes, version and
    number of triggers; loaded, its comment is empty;
  \<^item> the trigger file of version 1 whose comment is the code unit 0x100 is saved with the
    byte 0 for it, the low byte; loaded, its comment is empty and its trigger is read one
    byte early;
  \<^item> the texture whose path is the code unit 0x141 is written with the byte 0x41, and read
    back its path is \<open>A\<close>;
  \<^item> the texture with the path \<open>a.blp\<close>, written over bytes that are not zero: \<open>writeMdx\<close>
    skips the 255 bytes after the path without writing them, and read back the path has
    these bytes after it;
  \<^item> the texture whose \<open>replaceableId\<close> is -1 is read back with 4294967295.
\<close>

theorem roundtrip_counterexample:
  "0 \<notin> set (wct_comment wct_v0) \<and> wct_version wct_v0 \<noteq> 1
   \<and> (case War3MapWct_save trigger_len trigger_enc [] wct_v0 of
          Inl e \<Rightarrow> False
        | Inr (h', buf) \<Rightarrow>
            War3MapWct_new trigger_dec h' (Some (ArrayBufferRef buf)) =
              Some (Inr \<lparr>wct_version = 0, wct_comment = [], wct_trigger = None, wct_triggers = []\<rparr>))
   \<and> \<lparr>wct_version = 0, wct_comment = [], wct_trigger = None, wct_triggers = []\<rparr> \<noteq> wct_v0
   \<and> 0 \<notin> set (wct_comment wct_wide) \<and> wct_version wct_wide = 1 \<and> wct_trigger wct_wide = Some 7
   \<and> (case War3MapWct_save trigger_len trigger_enc [] wct_wide of
          Inl e \<Rightarrow> False
        | Inr (h', buf) \<Rightarrow>
            War3MapWct_new trigger_dec h' (Some (ArrayBufferRef buf)) =
              Some (Inr \<lparr>wct_version = 1, wct_comment = [], wct_trigger = Some 0x700, wct_triggers = []\<rparr>))
   \<and> path texture_wide = Some [0x141]
   \<and> (case Texture_writeMdx texture_wide ([replicate 268 0], whole_stream 0 268 0) of
          Inl e \<Rightarrow> False
        | Inr st' \<Rightarrow>
            fst (Texture_readMdx (fst st') (seek 0 (snd st')) Texture_new) =
              \<lparr>replaceableId = 0, path = Some (code_units ''A''), flags = 0\<rparr>)
   \<and> (case Texture_writeMdx sample_texture ([replicate 268 0xFF], whole_stream 0 268 0) of
          Inl e \<Rightarrow> False
        | Inr st' \<Rightarrow>
            fst (Texture_readMdx (fst st') (seek 0 (snd st')) Texture_new) =
              sample_texture\<lparr>path := Some (code_units ''a.blp'' @ replicate 255 0xFF)\<rparr>)
   \<and> replaceableId texture_minus = - 1
   \<and> (case Texture_writeMdx texture_minus ([replicate 268 0], whole_stream 0 268 0) of
          Inl e \<Rightarrow> False
        | Inr st' \<Rightarrow>
            fst (Texture_readMdx (fst st') (seek 0 (snd st')) Texture_new) =
              texture_minus\<lparr>replaceableId := 4294967295\<rparr>)"
proof -
  have trigger_files:
    "0 \<notin> set (wct_comment wct_v0) \<and> wct_version wct_v0 \<noteq> 1
     \<and> (case War3MapWct_save trigger_len trigger_enc [] wct_v0 of
            Inl e \<Rightarrow> False
          | Inr (h', buf) \<Rightarrow>
              War3MapWct_new trigger_dec h' (Some (ArrayBufferRef buf)) =
                Some (Inr \<lparr>wct_version = 0, wct_comment = [], wct_trigger = None, wct_triggers = []\<rparr>))
     \<and> \<lparr>wct_version = 0, wct_comment = [], wct_trigger = None, wct_triggers = []\<rparr> \<noteq> wct_v0
     \<and> 0 \<notin> set (wct_comment wct_wide) \<and> wct_version wct_wide = 1 \<and> wct_trigger wct_wide = Some 7
     \<and> (case War3MapWct_save trigger_len trigger_enc [] wct_wide of
            Inl e \<Rightarrow> False
          | Inr (h', buf) \<Rightarrow>
              War3MapWct_new trigger_dec h' (Some (ArrayBufferRef buf)) =
                Some (Inr \<lparr>wct_version = 1, wct_comment = [], wct_trigger = Some 0x700, wct_triggers = []\<rparr>))"
    by code_simp
  have new: "wrote_over (replicate 268 0) 0 [] ([replicate 268 0], whole_stream 0 268 0)"
    by (simp add: wrote_over_def)
  have used: "wrote_over (replicate 268 0xFF) 0 [] ([replicate 268 0xFF], whole_stream 0 268 0)"
    by (simp add: wrote_over_def)
  have wide_bytes:
    "map (\<lambda>x. fromCharCode (Some x)) (filter (\<lambda>x. x \<noteq> 0) (string_bytes [0x141])) = code_units ''A''"
    by code_simp
  have path_bytes:
    "map (\<lambda>x. fromCharCode (Some x)) (filter (\<lambda>x. x \<noteq> 0) (string_bytes (code_units ''a.blp'')))
       = code_units ''a.blp''"
    by code_simp
  have ff: "fromCharCode (Some 0xFF) = 0xFF" "(0xFF :: byte) \<noteq> 0"
    by code_simp+
  have minus: "uint (word_of_int (- 1) :: 32 word) = 4294967295"
    by code_simp
  have wide:
    "(case Texture_writeMdx texture_wide ([replicate 268 0], whole_stream 0 268 0) of
          Inl e \<Rightarrow> False
        | Inr st' \<Rightarrow>
            fst (Texture_readMdx (fst st') (seek 0 (snd st')) Texture_new) =
              \<lparr>replaceableId = 0, path = Some (code_units ''A''), flags = 0\<rparr>)"
    using Texture_written_read[OF new, of texture_wide "[0x141]" Texture_new] wide_bytes
    by (auto simp: texture_wide_def Texture_new_def)
  have over_used:
    "(case Texture_writeMdx sample_texture ([replicate 268 0xFF], whole_stream 0 268 0) of
          Inl e \<Rightarrow> False
        | Inr st' \<Rightarrow>
            fst (Texture_readMdx (fst st') (seek 0 (snd st')) Texture_new) =
              sample_texture\<lparr>path := Some (code_units ''a.blp'' @ replicate 255 0xFF)\<rparr>)"
    using Texture_written_read[OF used, of sample_texture "code_units ''a.blp''" Texture_new] path_bytes ff
    by (auto simp: sample_texture_def Texture_new_def)
  have negative:
    "(case Texture_writeMdx texture_minus ([replicate 268 0], whole_stream 0 268 0) of
          Inl e \<Rightarrow> False
        | Inr st' \<Rightarrow>
            fst (Texture_readMdx (fst st') (seek 0 (snd st')) Texture_new) =
              texture_minus\<lparr>replaceableId := 4294967295\<rparr>)"
    using Texture_written_read[OF new, of texture_minus "code_units ''a.blp''" Texture_new] path_bytes minus
    by (auto simp: texture_minus_def Texture_new_def)
  have "path texture_wide = Some [0x141]" "replaceableId texture_minus = - 1"
    by (simp_all add: texture_wide_def texture_minus_def)
  with trigger_files wide over_used negative show ?thesis
    by (simp only: simp_thms)
qed

text \<open>
  C2 (round trip), amended. A trigger file whose version is a number of the signed 32-bit
  range, whose comment is made of code units from 1 to 255 (no null character, and
  nothing that does not fit a byte), which has a trigger when its version is 1 and fewer
  than \<open>2 ^ 32\<close> triggers, each of which round-trips on its own: \<open>save()\<close> returns a buffer,
  and \<open>new War3MapWct(buffer)\<close> is the same object field for field when the version is 1;
  for any other version the version and the triggers are the same and the comment and
  the trigger, which such a file does not hold, are the empty string and \<open>null\<close>. A texture
  whose \<open>replaceableId\<close> and \<open>flags\<close> are numbers of the unsigned 32-bit range and whose path
  is made of at most 260 code units from 1 to 255, written by \<open>writeMdx\<close> into a stream
  over a new buffer, where every byte not yet written is zero, at the index that the
  writes before it left and with room for its 268 bytes: \<open>readMdx\<close> at that index gives
  back \<open>replaceableId\<close>, \<open>path\<close> and \<open>flags\<close>, and ends where \<open>writeMdx\<close> ended.
\<close>

theorem save_load_roundtrip:
  assumes dec: "\<forall>t rest. dec (enc t @ rest) = (t, length (enc t))"
    and len: "\<forall>t. length (enc t) = len t"
    and tr: "wct_version w = 1 \<longrightarrow> wct_trigger w \<noteq> None"
    and ver: "- (2 ^ 31) \<le> wct_version w" "wct_version w < 2 ^ 31"
    and nul: "0 \<notin> set (wct_comment w)"
    and lat: "\<forall>c\<in>set (wct_comment w). c < 256"
    and cnt: "length (wct_triggers w) < 2 ^ 32"
    and fresh: "wrote a n bs st" and room: "length bs + 268 \<le> n"
    and p: "path t = Some p" "length p \<le> 260" "0 \<notin> set p" "\<forall>c\<in>set p. c < 256"
    and rid: "0 \<le> replaceableId t" "replaceableId t < 2 ^ 32"
    and fl: "0 \<le> flags t" "flags t < 2 ^ 32"
  shows "(\<exists>h' buf. War3MapWct_save len enc h w = Inr (h', buf)
            \<and> War3MapWct_new dec h' (Some (ArrayBufferRef buf)) =
                 Some (Inr (if wct_version w = 1 then w
                            else w\<lparr>wct_comment := [], wct_trigger := None\<rparr>)))
       \<and> (\<exists>st'. Texture_writeMdx t st = Inr st'
            \<and> index (snd st') = int (length bs) + 268
            \<and> Texture_readMdx (fst st') (seek (int (length bs)) (snd st')) t0 = (t, snd st'))"
proof
  let ?B = "War3MapWct_bytes enc w"
  obtain st1 where st: "War3MapWct_save_stream len enc h w = Inr (length h, st1)"
      and w: "wrote (length h) (length ?B) ?B st1"
    using Wct_save_stream_wrote[OF len tr] by blast
  obtain h' s' where st1: "st1 = (h', s')" by (cases st1)
  have a: "length h < length h'" and c: "h' ! length h = ?B"
    using w by (simp_all add: wrote_def st1)
  have "War3MapWct_save len enc h w = Inr (h', length h)"
    by (simp add: War3MapWct_save_def st st1)
  moreover have "War3MapWct_new dec h' (Some (ArrayBufferRef (length h))) =
                 Some (Inr (if wct_version w = 1 then w
                            else w\<lparr>wct_comment := [], wct_trigger := None\<rparr>))"
    by (rule Wct_load_bytes[OF dec tr ver nul lat cnt a c])
  ultimately show "\<exists>h' buf. War3MapWct_save len enc h w = Inr (h', buf)
            \<and> War3MapWct_new dec h' (Some (ArrayBufferRef buf)) =
                 Some (Inr (if wct_version w = 1 then w
                            else w\<lparr>wct_comment := [], wct_trigger := None\<rparr>))"
    by blast
next
  show "\<exists>st'. Texture_writeMdx t st = Inr st'
            \<and> index (snd st') = int (length bs) + 268
            \<and> Texture_readMdx (fst st') (seek (int (length bs)) (snd st')) t0 = (t, snd st')"
    by (rule Texture_roundtrip[OF fresh room p rid fl])
qed

theorem save_load_roundtrip_witness:
  "(\<exists>h' buf. War3MapWct_save trigger_len trigger_enc [] sample_wct = Inr (h', buf)
            \<and> War3MapWct_new trigger_dec h' (Some (ArrayBufferRef buf)) = Some (Inr sample_wct))
   \<and> (\<exists>st'. Texture_writeMdx sample_texture ([replicate 300 0], whole_stream 0 300 0) = Inr st'
            \<and> index (snd st') = 268
            \<and> Texture_readMdx (fst st') (seek 0 (snd st')) Texture_new = (sample_texture, snd st'))"
proof -
  have d: "\<forall>t rest. trigger_dec (trigger_enc t @ rest) = (t, length (trigger_enc t))"
    by (simp add: trigger_dec_def trigger_enc_def bits32_uint8_def bits32_roundtrip)
  have l: "\<forall>t. length (trigger_enc t) = trigger_len t"
    by (simp add: trigger_enc_def trigger_len_def)
  have f: "wrote 0 300 [] ([replicate 300 0], whole_stream 0 300 0)"
    using wrote_init[of "[]" 300] by simp
  have c1: "0 \<notin> set (code_units ''hi'') \<and> (\<forall>c\<in>set (code_units ''hi''). c < 256)"
    by (simp add: code_units_def)
  have c2: "0 \<notin> set (code_units ''a.blp'') \<and> (\<forall>c\<in>set (code_units ''a.blp''). c < 256)"
    by (simp add: code_units_def)
  show ?thesis
    using save_load_roundtrip[OF d l, of sample_wct 0 300 "[]" "([replicate 300 0], whole_stream 0 300 0)"
        sample_texture "code_units ''a.blp''" "[]" Texture_new] f c1 c2
    by (simp add: sample_wct_def sample_texture_def)
qed

end
